theory Spec2Isabelle
  imports Main
begin

section \<open>ByteSeeker: a shallow embedding of the probing engine\<close>

text \<open>
  The repository holds the scanner of \<^verbatim>\<open>scan.go\<close> (with its configuration, path loader
  and DNS cache in separate files) and the stand-alone variant of \<^verbatim>\<open>cmd/main.go\<close>.
  Go values are modelled as follows: a \<^verbatim>\<open>string\<close> is a byte list, an \<^verbatim>\<open>int\<close> status code
  is an \<open>int\<close>, a \<^verbatim>\<open>time.Duration\<close> is an \<open>int\<close> of nanoseconds kept in the range of
  \<^verbatim>\<open>int64\<close> by an explicit wrap-around, a map is a partial function, an \<^verbatim>\<open>error\<close> is its
  message, and a run-time panic is the value \<open>Panics\<close>. The network, the clock and the
  random source are parameters of the functions that use them.
\<close>

subsection \<open>Results of a call\<close>

datatype 'a exec = Panics string | Returns 'a

subsection \<open>Durations\<close>

definition Minute :: int where
  "Minute = 60 * 1000000000"

definition minDuration :: int where
  "minDuration = - (2 ^ 63)"

definition maxDuration :: int where
  "maxDuration = 2 ^ 63 - 1"

text \<open>\<^verbatim>\<open>time.Since(t)\<close> is \<^verbatim>\<open>time.Now().Sub(t)\<close>, which saturates at the ends of \<^verbatim>\<open>int64\<close>.\<close>

definition since :: "int \<Rightarrow> int \<Rightarrow> int" where
  "since now t = max minDuration (min maxDuration (now - t))"

subsection \<open>The DNS cache\<close>

record dnsCacheEntry =
  ip :: string
  timestamp :: int

type_synonym dnsCache = "string \<rightharpoonup> dnsCacheEntry"

definition newDNSCache :: dnsCache where
  "newDNSCache = Map.empty"

text \<open>
  What a call of \<^verbatim>\<open>lookup\<close> leaves behind: the pair it returns (\<open>Inr\<close> the address,
  \<open>Inl\<close> the error), the entries of the cache, and how often \<^verbatim>\<open>net.LookupHost\<close> ran.
\<close>

record lookup_out =
  ret :: "string + string"
  entries :: dnsCache
  lookups :: nat

text \<open>
  \<^verbatim>\<open>lookup\<close>: \<open>LookupHost\<close> stands for \<^verbatim>\<open>net.LookupHost\<close>, \<open>t0\<close> is the clock read by
  \<^verbatim>\<open>time.Since\<close> and \<open>t1\<close> the clock read by \<^verbatim>\<open>time.Now\<close> when the entry is stored.
  \<^verbatim>\<open>ips[0]\<close> panics on an empty slice.
\<close>

definition lookup ::
  "(string \<Rightarrow> string + string list) \<Rightarrow> int \<Rightarrow> int \<Rightarrow> dnsCache \<Rightarrow> string \<Rightarrow> lookup_out exec" where
  "lookup LookupHost t0 t1 c host =
     (case (case c host of
              Some entry \<Rightarrow> if since t0 (timestamp entry) < 5 * Minute then Some entry else None
            | None \<Rightarrow> None) of
        Some entry \<Rightarrow> Returns \<lparr>ret = Inr (ip entry), entries = c, lookups = 0\<rparr>
      | None \<Rightarrow>
          (case LookupHost host of
             Inl msg \<Rightarrow> Returns \<lparr>ret = Inl msg, entries = c, lookups = 1\<rparr>
           | Inr ips \<Rightarrow>
               (case ips of
                  [] \<Rightarrow> Panics ''index out of range''
                | a # _ \<Rightarrow>
                    Returns \<lparr>ret = Inr a,
                             entries = c(host \<mapsto> \<lparr>ip = a, timestamp = t1\<rparr>),
                             lookups = 1\<rparr>)))"

text \<open>\<^verbatim>\<open>strings.LastIndex(s, ":")\<close> for a one-byte separator: the last index, or -1.\<close>

fun LastIndex :: "string \<Rightarrow> char \<Rightarrow> int" where
  "LastIndex [] c = - 1"
| "LastIndex (x # xs) c =
     (let r = LastIndex xs c
      in if 0 \<le> r then r + 1 else if x = c then 0 else - 1)"

text \<open>The slice expressions \<^verbatim>\<open>s[:i]\<close> and \<^verbatim>\<open>s[i:]\<close>, which panic out of range.\<close>

definition slice_to :: "string \<Rightarrow> int \<Rightarrow> string option" where
  "slice_to s i = (if 0 \<le> i \<and> i \<le> int (length s) then Some (take (nat i) s) else None)"

definition slice_from :: "string \<Rightarrow> int \<Rightarrow> string option" where
  "slice_from s i = (if 0 \<le> i \<and> i \<le> int (length s) then Some (drop (nat i) s) else None)"

text \<open>
  What \<^verbatim>\<open>cachedDialContext\<close> leaves behind: the connection or the error, and the
  entries of the cache. \<open>dial\<close> stands for \<^verbatim>\<open>net.Dialer.DialContext\<close>.
\<close>

record 'conn dial_out =
  conn :: "string + 'conn"
  cache :: dnsCache

definition cachedDialContext ::
  "(string \<Rightarrow> string + string list) \<Rightarrow> (string \<Rightarrow> string \<Rightarrow> string + 'conn) \<Rightarrow> int \<Rightarrow> int \<Rightarrow>
     dnsCache \<Rightarrow> string \<Rightarrow> string \<Rightarrow> 'conn dial_out exec" where
  "cachedDialContext LookupHost dial t0 t1 c network addr =
     (let separator = LastIndex addr (CHR '':'')
      in case (slice_to addr separator, slice_from addr separator) of
           (Some host, Some port) \<Rightarrow>
             (case lookup LookupHost t0 t1 c host of
                Panics m \<Rightarrow> Panics m
              | Returns r \<Rightarrow>
                  (case ret r of
                     Inl msg \<Rightarrow> Returns \<lparr>conn = Inl msg, cache = entries r\<rparr>
                   | Inr a \<Rightarrow> Returns \<lparr>conn = dial network (a @ port), cache = entries r\<rparr>))
         | _ \<Rightarrow> Panics ''slice bounds out of range'')"

subsection \<open>The path loader\<close>

text \<open>
  A file as \<^verbatim>\<open>os.Open\<close> hands it over: the bytes that can be read, and the error (if
  any) that a read raises after them.
\<close>

record osFile =
  data :: string
  readErr :: "string option"

text \<open>\<^verbatim>\<open>bufio.ScanLines\<close> removes one trailing carriage return from a line.\<close>

definition dropCR :: "string \<Rightarrow> string" where
  "dropCR d = (if d \<noteq> [] \<and> last d = CHR 0x0D then butlast d else d)"

text \<open>
  The tokens of \<^verbatim>\<open>bufio.ScanLines\<close> before \<open>dropCR\<close>: the text between newlines, and
  the text after the last newline when it is not empty. \<open>cur\<close> is the line read so far.
\<close>

fun splitLines :: "string \<Rightarrow> string \<Rightarrow> string list" where
  "splitLines cur [] = (if cur = [] then [] else [cur])"
| "splitLines cur (x # xs) =
     (if x = CHR 0x0A then cur # splitLines [] xs else splitLines (cur @ [x]) xs)"

definition MaxScanTokenSize :: nat where
  "MaxScanTokenSize = 64 * 1024"

text \<open>
  \<^verbatim>\<open>scanner.Err()\<close> after the loop: a line that fills the scanner's buffer stops the scan
  with \<^verbatim>\<open>bufio.ErrTooLong\<close>, and a failed read stops it with the read's error.
\<close>

definition scannerErr :: "osFile \<Rightarrow> string option" where
  "scannerErr f =
     (if list_ex (\<lambda>l. MaxScanTokenSize \<le> length l) (splitLines [] (data f))
      then Some ''bufio.Scanner: token too long''
      else readErr f)"

text \<open>\<^verbatim>\<open>loadPaths\<close> of the scanner; \<open>Open\<close> stands for \<^verbatim>\<open>os.Open\<close>.\<close>

definition loadPaths :: "(string \<Rightarrow> string + osFile) \<Rightarrow> string \<Rightarrow> string + string list" where
  "loadPaths Open filePath =
     (case Open filePath of
        Inl msg \<Rightarrow> Inl msg
      | Inr f \<Rightarrow>
          (let paths = map dropCR (splitLines [] (data f))
           in case scannerErr f of Some msg \<Rightarrow> Inl msg | None \<Rightarrow> Inr paths))"

text \<open>
  A string that \<^verbatim>\<open>strings.TrimSpace\<close> makes empty: it is made of white space only, that
  is of the code points for which \<^verbatim>\<open>unicode.IsSpace\<close> holds, in UTF-8: the six of ASCII
  (tab, newline, vertical tab, form feed, carriage return, space), U+0085 and U+00A0 in
  two bytes, and U+1680, U+2000 to U+200A, U+2028, U+2029, U+202F, U+205F and U+3000 in
  three. The loader of \<^verbatim>\<open>cmd/main.go\<close> keeps a line only when
  \<^verbatim>\<open>len(strings.TrimSpace(line)) > 0\<close>.
\<close>

definition asciiSpace :: "char \<Rightarrow> bool" where
  "asciiSpace c = (c = CHR 0x09 \<or> c = CHR 0x0A \<or> c = CHR 0x0B \<or> c = CHR 0x0C \<or> c = CHR 0x0D \<or>
                   c = CHR 0x20)"

definition space2 :: "char \<Rightarrow> char \<Rightarrow> bool" where
  "space2 a b = (a = CHR 0xC2 \<and> (b = CHR 0x85 \<or> b = CHR 0xA0))"

definition space3 :: "char \<Rightarrow> char \<Rightarrow> char \<Rightarrow> bool" where
  "space3 a b c =
     ((a = CHR 0xE1 \<and> b = CHR 0x9A \<and> c = CHR 0x80) \<or>
      (a = CHR 0xE2 \<and> b = CHR 0x80 \<and>
         ((0x80 \<le> (of_char c :: nat) \<and> (of_char c :: nat) \<le> 0x8A) \<or>
          c = CHR 0xA8 \<or> c = CHR 0xA9 \<or> c = CHR 0xAF)) \<or>
      (a = CHR 0xE2 \<and> b = CHR 0x81 \<and> c = CHR 0x9F) \<or>
      (a = CHR 0xE3 \<and> b = CHR 0x80 \<and> c = CHR 0x80))"

fun blank :: "string \<Rightarrow> bool" where
  "blank [] = True"
| "blank [a] = asciiSpace a"
| "blank [a, b] = (if asciiSpace a then blank [b] else space2 a b)"
| "blank (a # b # c # rest) =
     (if asciiSpace a then blank (b # c # rest)
      else if space2 a b then blank (c # rest)
      else space3 a b c \<and> blank rest)"

subsection \<open>The task executor of \<^verbatim>\<open>scan.go\<close>\<close>

text \<open>\<^verbatim>\<open>x *= 2\<close> on an \<^verbatim>\<open>int64\<close> wraps around.\<close>

definition wrap64 :: "int \<Rightarrow> int" where
  "wrap64 x = (x + 2 ^ 63) mod 2 ^ 64 - 2 ^ 63"

record ScannerConfig =
  baseURL :: string
  pathsFile :: string
  concurrent :: int
  timeout :: int
  userAgents :: "string list"
  adaptiveDelay :: int
  outputFormat :: string
  outputFile :: string

record ScanResult =
  URL :: string
  StatusCode :: int
  Status :: string
  ErrorMessage :: string

definition StatusOK :: int where
  "StatusOK = 200"

definition StatusNotFound :: int where
  "StatusNotFound = 404"

definition StatusTooManyRequests :: int where
  "StatusTooManyRequests = 429"

text \<open>\<^verbatim>\<open>strings.Contains\<close>.\<close>

fun Contains :: "string \<Rightarrow> string \<Rightarrow> bool" where
  "Contains [] sub = (sub = [])"
| "Contains (x # xs) sub = (take (length sub) (x # xs) = sub \<or> Contains xs sub)"

text \<open>
  What a task meets outside the program: \<open>NewRequest url\<close> is the error of
  \<^verbatim>\<open>http.NewRequestWithContext\<close> for the URL (\<open>None\<close> when the request is built),
  \<open>Do url agent i\<close> is the pair \<^verbatim>\<open>(resp, err)\<close> that \<^verbatim>\<open>client.Do\<close> returns to the task's
  attempt \<open>i\<close> (a response is its status code, \<^verbatim>\<open>nil\<close> is \<open>None\<close>), and \<open>Intn k\<close> is the
  number behind the task's \<open>k\<close>-th call of \<^verbatim>\<open>rand.Intn\<close>, reduced modulo the bound.
\<close>

record env =
  NewRequest :: "string \<Rightarrow> string option"
  Do :: "string \<Rightarrow> string \<Rightarrow> nat \<Rightarrow> int option \<times> string option"
  Intn :: "nat \<Rightarrow> nat"

text \<open>
  The state of one call of \<^verbatim>\<open>scanTarget\<close>: its variables \<^verbatim>\<open>resp\<close> and \<^verbatim>\<open>err\<close> declared
  before the loop, the cell its parameter \<^verbatim>\<open>adaptiveDelay\<close> points to, and what it has
  done so far: the values sent on \<^verbatim>\<open>results\<close>, the arguments of \<^verbatim>\<open>time.Sleep\<close>, and the
  \<^verbatim>\<open>User-Agent\<close> header of each call of \<^verbatim>\<open>client.Do\<close>, all in order.
\<close>

record task =
  resp :: "int option"
  err :: "string option"
  cell :: int
  sent :: "ScanResult list"
  slept :: "int list"
  agents :: "string list"

datatype 'a control = Break 'a | Continue 'a | Return 'a

text \<open>
  The body of the loop. \<^verbatim>\<open>req, err := http.NewRequestWithContext(...)\<close> declares a new
  \<^verbatim>\<open>err\<close> in the block of the body, and \<^verbatim>\<open>resp, err = client.Do(req)\<close> assigns to that
  one and to the \<^verbatim>\<open>resp\<close> of the function: the body never writes the field \<open>err\<close>.
\<close>

definition attempt :: "env \<Rightarrow> string \<Rightarrow> string \<Rightarrow> string \<Rightarrow> nat \<Rightarrow> task \<Rightarrow> task control" where
  "attempt e base path userAgent i t =
     (case NewRequest e (base @ path) of
        Some err' \<Rightarrow>
          Return (if \<not> Contains err' ''404''
                  then t\<lparr>sent := sent t @
                         [\<lparr>URL = base @ path, StatusCode = 0, Status = [],
                           ErrorMessage =
                             ''Error creating request for '' @ path @ '': '' @ err' @ [CHR 0x0A]\<rparr>]\<rparr>
                  else t)
      | None \<Rightarrow>
          (case Do e (base @ path) userAgent i of
             (resp', err') \<Rightarrow>
               (let t1 = t\<lparr>resp := resp', agents := agents t @ [userAgent]\<rparr>
                in case (err', resp') of
                     (None, Some code) \<Rightarrow>
                       if code \<noteq> StatusNotFound then Break t1 else Continue t1
                   | _ \<Rightarrow>
                       Continue (t1\<lparr>slept := slept t1 @ [cell t1],
                                    cell := wrap64 (cell t1 * 2)\<rparr>))))"

text \<open>\<^verbatim>\<open>for i := 0; i < 3; i++\<close>, from the iteration \<open>i\<close> on.\<close>

function attempts :: "env \<Rightarrow> string \<Rightarrow> string \<Rightarrow> string \<Rightarrow> nat \<Rightarrow> task \<Rightarrow> task control" where
  "attempts e base path userAgent i t =
     (if i < 3
      then (case attempt e base path userAgent i t of
              Continue t' \<Rightarrow> attempts e base path userAgent (i + 1) t'
            | Break t' \<Rightarrow> Break t'
            | Return t' \<Rightarrow> Return t')
      else Break t)"
  by pat_completeness auto
termination
  by (relation "measure (\<lambda>(e, base, path, userAgent, i, t). 3 - i)") auto

declare attempts.simps [simp del]

text \<open>The statements after the loop.\<close>

definition report :: "string \<Rightarrow> string \<Rightarrow> task \<Rightarrow> task" where
  "report base path t =
     (case err t of
        Some err' \<Rightarrow>
          (if \<not> Contains err' ''404''
           then t\<lparr>sent := sent t @
                  [\<lparr>URL = base @ path, StatusCode = 0, Status = [],
                    ErrorMessage = ''Error scanning '' @ path @ '': '' @ err' @ [CHR 0x0A]\<rparr>]\<rparr>
           else t)
      | None \<Rightarrow>
          (case resp t of
             Some code \<Rightarrow>
               (if code \<noteq> StatusNotFound
                then t\<lparr>sent := sent t @
                       [\<lparr>URL = base @ path, StatusCode = code,
                         Status = (if code = StatusOK then ''Found''
                                   else if code = StatusTooManyRequests then ''Rate limited''
                                   else ''Unknown''),
                         ErrorMessage = []\<rparr>]\<rparr>
                else t)
           | None \<Rightarrow> t))"

text \<open>What \<^verbatim>\<open>scanTarget\<close> does once the loop is left: nothing more after a \<^verbatim>\<open>return\<close>.\<close>

definition finish :: "string \<Rightarrow> string \<Rightarrow> task control \<Rightarrow> task" where
  "finish base path c =
     (case c of Return t \<Rightarrow> t | Break t \<Rightarrow> report base path t | Continue t \<Rightarrow> report base path t)"

text \<open>
  \<^verbatim>\<open>scanTarget\<close>, called with the cell behind \<^verbatim>\<open>adaptiveDelay\<close> holding \<open>delay\<close>.
  \<^verbatim>\<open>rand.Intn\<close> panics on the bound 0.
\<close>

definition scanTarget :: "env \<Rightarrow> string \<Rightarrow> string \<Rightarrow> string list \<Rightarrow> int \<Rightarrow> task exec" where
  "scanTarget e base path agentPool delay =
     (if length agentPool = 0 then Panics ''invalid argument to Intn''
      else
        (let userAgent = agentPool ! (Intn e 0 mod length agentPool);
             t0 = \<lparr>resp = None, err = None, cell = delay, sent = [], slept = [], agents = []\<rparr>
         in Returns (finish base path (attempts e base path userAgent 0 t0))))"

subsection \<open>The worker loop of \<^verbatim>\<open>runScanner\<close>, run alone\<close>

text \<open>
  One worker receiving the paths in order: each call of \<^verbatim>\<open>scanTarget\<close> is handed
  \<^verbatim>\<open>&config.adaptiveDelay\<close>, so the cell of the task is the field of the configuration.
  \<open>es n\<close> is what the \<open>n\<close>-th task of the run meets outside the program.
\<close>

record run =
  finalConfig :: ScannerConfig
  outcomes :: "ScanResult list"
  sleeps :: "int list"

fun worker :: "(nat \<Rightarrow> env) \<Rightarrow> nat \<Rightarrow> ScannerConfig \<Rightarrow> string list \<Rightarrow> run exec" where
  "worker es n config [] = Returns \<lparr>finalConfig = config, outcomes = [], sleeps = []\<rparr>"
| "worker es n config (path # paths) =
     (case scanTarget (es n) (baseURL config) path (userAgents config) (adaptiveDelay config) of
        Panics m \<Rightarrow> Panics m
      | Returns t \<Rightarrow>
          (case worker es (Suc n) (config\<lparr>adaptiveDelay := cell t\<rparr>) paths of
             Panics m \<Rightarrow> Panics m
           | Returns r \<Rightarrow>
               Returns (r\<lparr>outcomes := sent t @ outcomes r, sleeps := slept t @ sleeps r\<rparr>)))"

subsection \<open>The threads of \<^verbatim>\<open>runScanner\<close>\<close>

text \<open>
  \<^verbatim>\<open>runScanner\<close> after the paths are loaded: the main goroutine, \<^verbatim>\<open>config.concurrent\<close>
  workers and the goroutine that collects the results, interleaved by a schedule. The
  main goroutine stands at one of six places: sending the paths and closing
  \<^verbatim>\<open>tasksChan\<close>, entering \<^verbatim>\<open>wg.Wait()\<close>, parked inside it as a waiter, woken inside it,
  before \<^verbatim>\<open>close(resultsChan)\<close>, and after it. A worker
  stands in the receive of its \<^verbatim>\<open>range\<close> loop, before \<^verbatim>\<open>wg.Add(1)\<close> with the path it
  received, inside \<^verbatim>\<open>scanTarget\<close> with the results it has yet to send (an empty list
  leaves the deferred \<^verbatim>\<open>wg.Done()\<close>), or after its loop.
\<close>

datatype mainpc = Feeding | Waiting | Parked | Woken | Closing | Finished

datatype wstate = Receiving | Adding string | Sending "ScanResult list" | Stopped

datatype thread = MainT | WorkerT nat | CollectorT

record sched =
  mainAt :: mainpc
  unsent :: "string list"
  tasksChan :: "string list"
  tasksClosed :: bool
  wg :: int
  resultsChan :: "ScanResult list"
  resultsClosed :: bool
  workers :: "wstate list"
  results :: "ScanResult list"
  delayCell :: int
  crashed :: "string option"

definition start :: "ScannerConfig \<Rightarrow> string list \<Rightarrow> sched" where
  "start config paths =
     \<lparr>mainAt = Feeding, unsent = paths, tasksChan = [], tasksClosed = False, wg = 0,
      resultsChan = [], resultsClosed = False,
      workers = replicate (nat (concurrent config)) Receiving, results = [],
      delayCell = adaptiveDelay config,
      crashed = (if concurrent config < 0 then Some ''makechan: size out of range'' else None)\<rparr>"

text \<open>
  A step of the main goroutine; \<open>None\<close> when it is blocked or has left the part modelled.
  A send on a channel of capacity \<^verbatim>\<open>config.concurrent\<close> blocks while the buffer is full.
  \<^verbatim>\<open>wg.Wait()\<close> returns at once when the counter is 0; otherwise it registers the caller
  as a waiter and parks it until a \<^verbatim>\<open>wg.Done()\<close> brings the counter to 0. The woken
  caller reads the counter again and panics when it is no longer 0.
\<close>

definition mainStep :: "ScannerConfig \<Rightarrow> sched \<Rightarrow> sched option" where
  "mainStep config s =
     (case mainAt s of
        Feeding \<Rightarrow>
          (case unsent s of
             path # rest \<Rightarrow>
               if int (length (tasksChan s)) < concurrent config
               then Some (s\<lparr>tasksChan := tasksChan s @ [path], unsent := rest\<rparr>)
               else None
           | [] \<Rightarrow> Some (s\<lparr>tasksClosed := True, mainAt := Waiting\<rparr>))
      | Waiting \<Rightarrow>
          if wg s = 0 then Some (s\<lparr>mainAt := Closing\<rparr>) else Some (s\<lparr>mainAt := Parked\<rparr>)
      | Parked \<Rightarrow> None
      | Woken \<Rightarrow>
          if wg s \<noteq> 0
          then Some (s\<lparr>crashed :=
                 Some ''sync: WaitGroup is reused before previous Wait has returned''\<rparr>)
          else Some (s\<lparr>mainAt := Closing\<rparr>)
      | Closing \<Rightarrow> Some (s\<lparr>resultsClosed := True, mainAt := Finished\<rparr>)
      | Finished \<Rightarrow> None)"

text \<open>
  A step of worker \<open>k\<close>. The loop of \<^verbatim>\<open>scanTarget\<close> runs in one step, on the shared cell
  behind \<^verbatim>\<open>&config.adaptiveDelay\<close>; each send on \<^verbatim>\<open>resultsChan\<close> is a step of its own,
  and a send on a closed channel panics. \<^verbatim>\<open>wg.Add(1)\<close> and \<^verbatim>\<open>wg.Done()\<close> are one step
  each; the \<^verbatim>\<open>wg.Done()\<close> that brings the counter to 0 wakes a parked waiter.
\<close>

definition workerStep :: "env \<Rightarrow> ScannerConfig \<Rightarrow> nat \<Rightarrow> sched \<Rightarrow> sched option" where
  "workerStep e config k s =
     (if length (workers s) \<le> k then None
      else
        (case workers s ! k of
           Receiving \<Rightarrow>
             (case tasksChan s of
                path # rest \<Rightarrow>
                  Some (s\<lparr>tasksChan := rest, workers := (workers s)[k := Adding path]\<rparr>)
              | [] \<Rightarrow>
                  if tasksClosed s then Some (s\<lparr>workers := (workers s)[k := Stopped]\<rparr>) else None)
         | Adding path \<Rightarrow>
             (case scanTarget e (baseURL config) path (userAgents config) (delayCell s) of
                Panics m \<Rightarrow> Some (s\<lparr>wg := wg s + 1, crashed := Some m\<rparr>)
              | Returns t \<Rightarrow>
                  Some (s\<lparr>wg := wg s + 1, delayCell := cell t,
                          workers := (workers s)[k := Sending (sent t)]\<rparr>))
         | Sending rs \<Rightarrow>
             (case rs of
                r # rest \<Rightarrow>
                  if resultsClosed s then Some (s\<lparr>crashed := Some ''send on closed channel''\<rparr>)
                  else if int (length (resultsChan s)) < concurrent config
                  then Some (s\<lparr>resultsChan := resultsChan s @ [r],
                               workers := (workers s)[k := Sending rest]\<rparr>)
                  else None
              | [] \<Rightarrow>
                  Some (s\<lparr>wg := wg s - 1,
                          mainAt := (if wg s - 1 = 0 \<and> mainAt s = Parked then Woken
                                     else mainAt s),
                          workers := (workers s)[k := Receiving]\<rparr>))
         | Stopped \<Rightarrow> None))"

text \<open>A step of the collecting goroutine: \<^verbatim>\<open>results = append(results, result)\<close>.\<close>

definition collectorStep :: "sched \<Rightarrow> sched option" where
  "collectorStep s =
     (case resultsChan s of
        r # rest \<Rightarrow> Some (s\<lparr>resultsChan := rest, results := results s @ [r]\<rparr>)
      | [] \<Rightarrow> None)"

definition step :: "env \<Rightarrow> ScannerConfig \<Rightarrow> thread \<Rightarrow> sched \<Rightarrow> sched option" where
  "step e config th s =
     (if crashed s \<noteq> None then None
      else case th of
             MainT \<Rightarrow> mainStep config s
           | WorkerT k \<Rightarrow> workerStep e config k s
           | CollectorT \<Rightarrow> collectorStep s)"

text \<open>A schedule names the thread that moves next; it is refused where that thread cannot move.\<close>

fun execute :: "env \<Rightarrow> ScannerConfig \<Rightarrow> thread list \<Rightarrow> sched \<Rightarrow> sched option" where
  "execute e config [] s = Some s"
| "execute e config (th # ths) s =
     (case step e config th s of None \<Rightarrow> None | Some s' \<Rightarrow> execute e config ths s')"

subsection \<open>Calls of \<^verbatim>\<open>scanTarget\<close> that run at the same time\<close>

text \<open>
  With \<^verbatim>\<open>config.concurrent\<close> above 1 several workers are inside \<^verbatim>\<open>scanTarget\<close> at once,
  all with the same \<^verbatim>\<open>&config.adaptiveDelay\<close>. Here a call moves statement by statement:
  it stands at the head of the loop, before \<^verbatim>\<open>time.Sleep(*adaptiveDelay)\<close>, before the read
  of \<^verbatim>\<open>*adaptiveDelay *= 2\<close>, before its write (holding the value read), before the
  statements after the loop, or at its end. A call starts once its user agent is drawn;
  its own \<^verbatim>\<open>err\<close> is \<^verbatim>\<open>nil\<close> throughout, as the loop does not assign it.
\<close>

datatype place = AtLoop | AtSleep | AtLoad | AtStore int | AtReport | AtEnd

record call =
  callPath :: string
  callAgent :: string
  attemptNo :: nat
  callResp :: "int option"
  callAt :: place
  callSent :: "ScanResult list"

text \<open>
  What the calls share: the cell behind \<^verbatim>\<open>adaptiveDelay\<close>, and the arguments of
  \<^verbatim>\<open>time.Sleep\<close> in the order in which the sleeps begin.
\<close>

record shared =
  sharedCell :: int
  sleepLog :: "int list"
  calls :: "call list"

definition newCall :: "string \<Rightarrow> string \<Rightarrow> call" where
  "newCall path userAgent =
     \<lparr>callPath = path, callAgent = userAgent, attemptNo = 0, callResp = None, callAt = AtLoop,
      callSent = []\<rparr>"

text \<open>One statement of call \<open>k\<close>; \<open>None\<close> when there is no such call or it has ended.\<close>

definition callStep :: "env \<Rightarrow> string \<Rightarrow> nat \<Rightarrow> shared \<Rightarrow> shared option" where
  "callStep e base k s =
     (if length (calls s) \<le> k then None
      else
        (let c = calls s ! k
         in case callAt c of
              AtLoop \<Rightarrow>
                if attemptNo c < 3
                then
                  (case NewRequest e (base @ callPath c) of
                     Some err' \<Rightarrow>
                       Some (s\<lparr>calls := (calls s)[k := c\<lparr>callAt := AtEnd,
                         callSent := callSent c @
                           (if \<not> Contains err' ''404''
                            then [\<lparr>URL = base @ callPath c, StatusCode = 0, Status = [],
                                   ErrorMessage = ''Error creating request for '' @ callPath c @
                                     '': '' @ err' @ [CHR 0x0A]\<rparr>]
                            else [])\<rparr>]\<rparr>)
                   | None \<Rightarrow>
                       (case Do e (base @ callPath c) (callAgent c) (attemptNo c) of
                          (resp', err') \<Rightarrow>
                            (case (err', resp') of
                               (None, Some code) \<Rightarrow>
                                 if code \<noteq> StatusNotFound
                                 then Some (s\<lparr>calls := (calls s)[k := c\<lparr>callResp := resp',
                                              callAt := AtReport\<rparr>]\<rparr>)
                                 else Some (s\<lparr>calls := (calls s)[k := c\<lparr>callResp := resp',
                                              attemptNo := attemptNo c + 1\<rparr>]\<rparr>)
                             | _ \<Rightarrow>
                                 Some (s\<lparr>calls := (calls s)[k := c\<lparr>callResp := resp',
                                          callAt := AtSleep\<rparr>]\<rparr>))))
                else Some (s\<lparr>calls := (calls s)[k := c\<lparr>callAt := AtReport\<rparr>]\<rparr>)
            | AtSleep \<Rightarrow>
                Some (s\<lparr>sleepLog := sleepLog s @ [sharedCell s],
                        calls := (calls s)[k := c\<lparr>callAt := AtLoad\<rparr>]\<rparr>)
            | AtLoad \<Rightarrow>
                Some (s\<lparr>calls := (calls s)[k := c\<lparr>callAt := AtStore (sharedCell s)\<rparr>]\<rparr>)
            | AtStore v \<Rightarrow>
                Some (s\<lparr>sharedCell := wrap64 (v * 2),
                        calls := (calls s)[k := c\<lparr>callAt := AtLoop,
                                   attemptNo := attemptNo c + 1\<rparr>]\<rparr>)
            | AtReport \<Rightarrow>
                Some (s\<lparr>calls := (calls s)[k := c\<lparr>callAt := AtEnd,
                  callSent := callSent c @
                    (case callResp c of
                       Some code \<Rightarrow>
                         if code \<noteq> StatusNotFound
                         then [\<lparr>URL = base @ callPath c, StatusCode = code,
                                Status = (if code = StatusOK then ''Found''
                                          else if code = StatusTooManyRequests
                                          then ''Rate limited'' else ''Unknown''),
                                ErrorMessage = []\<rparr>]
                         else []
                     | None \<Rightarrow> [])\<rparr>]\<rparr>)
            | AtEnd \<Rightarrow> None))"

text \<open>A schedule names the call that moves next.\<close>

fun runCalls :: "env \<Rightarrow> string \<Rightarrow> nat list \<Rightarrow> shared \<Rightarrow> shared option" where
  "runCalls e base [] s = Some s"
| "runCalls e base (k # ks) s =
     (case callStep e base k s of None \<Rightarrow> None | Some s' \<Rightarrow> runCalls e base ks s')"

subsection \<open>The task executor of \<^verbatim>\<open>cmd/main.go\<close>\<close>

text \<open>
  The state of one call of \<^verbatim>\<open>scanTarget\<close> in \<^verbatim>\<open>cmd/main.go\<close>: its variable \<^verbatim>\<open>delay\<close>, the
  strings sent on \<^verbatim>\<open>results\<close>, the arguments of \<^verbatim>\<open>time.Sleep\<close>, the \<^verbatim>\<open>User-Agent\<close> header
  of each call of \<^verbatim>\<open>client.Do\<close>, and the number of calls of \<^verbatim>\<open>rand.Intn\<close>.
\<close>

record cmdTask =
  delay :: int
  printed :: "string list"
  naps :: "int list"
  headers :: "string list"
  draws :: nat

text \<open>
  The body of the loop; \<open>TrimSpace\<close> stands for \<^verbatim>\<open>strings.TrimSpace\<close> and \<open>NewRequest\<close>
  for \<^verbatim>\<open>http.NewRequest\<close>; \<open>printed\<close> holds what is sent on \<^verbatim>\<open>results\<close>. In the branch of
  the rate limit \<^verbatim>\<open>%d\<close> prints the status code 429. Reading \<^verbatim>\<open>resp.StatusCode\<close> of a \<^verbatim>\<open>nil\<close>
  response panics.
\<close>

definition attempt_cmd ::
  "env \<Rightarrow> (string \<Rightarrow> string) \<Rightarrow> string \<Rightarrow> string \<Rightarrow> string list \<Rightarrow> nat \<Rightarrow> cmdTask \<Rightarrow>
     cmdTask control exec" where
  "attempt_cmd e TrimSpace base path agentPool i t =
     (let fullURL = TrimSpace (base @ path)
      in case NewRequest e fullURL of
           Some err' \<Rightarrow>
             Returns (Continue (t\<lparr>printed := printed t @
               [''[ERROR] Failed to create request for '' @ fullURL @ '': '' @ err' @ [CHR 0x0A]]\<rparr>))
         | None \<Rightarrow>
             if length agentPool = 0 then Panics ''invalid argument to Intn''
             else
               (let agent = agentPool ! (Intn e (draws t) mod length agentPool);
                    t1 = t\<lparr>draws := draws t + 1, headers := headers t @ [agent]\<rparr>
                in case Do e fullURL agent i of
                     (resp', Some err') \<Rightarrow>
                       (let t2 = (if resp' = None
                                  then t1\<lparr>printed := printed t1 @
                                         [''[ERROR] Failed to scan '' @ base @ path @ '': '' @ err' @
                                          [CHR 0x0A]]\<rparr>
                                  else t1)
                        in Returns (Continue (t2\<lparr>naps := naps t2 @ [delay t2],
                                                 delay := wrap64 (delay t2 * 2)\<rparr>)))
                   | (None, None) \<Rightarrow> Panics ''nil pointer dereference''
                   | (Some statusCode, None) \<Rightarrow>
                       if 200 \<le> statusCode \<and> statusCode < 300
                       then Returns (Break (t1\<lparr>printed := printed t1 @
                              [''[SUCCESS] Found '' @ base @ path @ [CHR 0x0A]]\<rparr>))
                       else if statusCode = StatusTooManyRequests
                       then Returns (Break (t1\<lparr>printed := printed t1 @
                              [''[RATE LIMIT] Too Many Requests '' @ base @ path @
                               '' (Status: 429)'' @ [CHR 0x0A]]\<rparr>))
                       else Returns (Continue (t1\<lparr>naps := naps t1 @ [delay t1],
                                                  delay := wrap64 (delay t1 * 2)\<rparr>))))"

text \<open>\<^verbatim>\<open>for i := 0; i < 3; i++\<close>, from the iteration \<open>i\<close> on.\<close>

function attempts_cmd ::
  "env \<Rightarrow> (string \<Rightarrow> string) \<Rightarrow> string \<Rightarrow> string \<Rightarrow> string list \<Rightarrow> nat \<Rightarrow> cmdTask \<Rightarrow> cmdTask exec" where
  "attempts_cmd e TrimSpace base path agentPool i t =
     (if i < 3
      then (case attempt_cmd e TrimSpace base path agentPool i t of
              Panics m \<Rightarrow> Panics m
            | Returns (Continue t') \<Rightarrow> attempts_cmd e TrimSpace base path agentPool (i + 1) t'
            | Returns (Break t') \<Rightarrow> Returns t'
            | Returns (Return t') \<Rightarrow> Returns t')
      else Returns t)"
  by pat_completeness auto
termination
  by (relation "measure (\<lambda>(e, TrimSpace, base, path, agentPool, i, t). 3 - i)") auto

declare attempts_cmd.simps [simp del]

text \<open>
  \<^verbatim>\<open>scanTarget\<close> of \<^verbatim>\<open>cmd/main.go\<close>: \<^verbatim>\<open>delay := *adaptiveDelay\<close> copies the cell, which is
  not written afterwards.
\<close>

definition scanTarget_cmd ::
  "env \<Rightarrow> (string \<Rightarrow> string) \<Rightarrow> string \<Rightarrow> string \<Rightarrow> string list \<Rightarrow> int \<Rightarrow> cmdTask exec" where
  "scanTarget_cmd e TrimSpace base path agentPool adaptiveDelay' =
     attempts_cmd e TrimSpace base path agentPool 0
       \<lparr>delay = adaptiveDelay', printed = [], naps = [], headers = [], draws = 0\<rparr>"

subsection \<open>Example surroundings\<close>

text \<open>A host that cannot be reached, a server that answers every request with one status.\<close>

definition unreachable :: env where
  "unreachable = \<lparr>NewRequest = (\<lambda>u. None),
                   Do = (\<lambda>u a i. (None, Some ''dial tcp: i/o timeout'')),
                   Intn = (\<lambda>k. k)\<rparr>"

definition answering :: "int \<Rightarrow> env" where
  "answering code =
     \<lparr>NewRequest = (\<lambda>u. None), Do = (\<lambda>u a i. (Some code, None)), Intn = (\<lambda>k. k)\<rparr>"

definition example :: ScannerConfig where
  "example = \<lparr>baseURL = ''http://test.local'', pathsFile = ''paths.txt'', concurrent = 1,
              timeout = 10000000000, userAgents = [''A'', ''B''], adaptiveDelay = 100000000,
              outputFormat = ''text'', outputFile = ''out.txt''\<rparr>"

section \<open>Properties\<close>

subsection \<open>The DNS cache\<close>

lemma since_lt_iff: "since now t < 5 * Minute \<longleftrightarrow> now - t < 300000000000"
  unfolding since_def Minute_def minDuration_def maxDuration_def by auto

lemma LastIndex_absent: "c \<notin> set s \<Longrightarrow> LastIndex s c = - 1"
  by (induction s) (auto simp: Let_def)

lemma LastIndex_bounds: "- 1 \<le> LastIndex s c \<and> LastIndex s c < int (length s)"
  by (induction s) (auto simp: Let_def)

lemma LastIndex_present: "c \<in> set s \<Longrightarrow> 0 \<le> LastIndex s c"
  by (induction s) (auto simp: Let_def)

text \<open>
  C5: when the cache holds an entry for the host whose age is below five minutes,
  \<^verbatim>\<open>lookup\<close> returns the entry's address, runs no resolution and leaves the entries as
  they are. Otherwise it runs \<^verbatim>\<open>net.LookupHost\<close> once; when that yields addresses it returns
  the first and stores it with the current time in place of any earlier entry for the
  host; when that fails it returns the error as a value (no panic) and leaves the
  entries as they are.
\<close>

theorem lookup_cache_contract:
  "(c host = Some e \<and> t0 - timestamp e < 300000000000 \<longrightarrow>
      lookup LookupHost t0 t1 c host = Returns \<lparr>ret = Inr (ip e), entries = c, lookups = 0\<rparr>) \<and>
   (\<not> (\<exists>e'. c host = Some e' \<and> t0 - timestamp e' < 300000000000) \<and>
    LookupHost host = Inr (a # as) \<longrightarrow>
      lookup LookupHost t0 t1 c host =
        Returns \<lparr>ret = Inr a, entries = c(host \<mapsto> \<lparr>ip = a, timestamp = t1\<rparr>), lookups = 1\<rparr>) \<and>
   (\<not> (\<exists>e'. c host = Some e' \<and> t0 - timestamp e' < 300000000000) \<and>
    LookupHost host = Inl msg \<longrightarrow>
      lookup LookupHost t0 t1 c host = Returns \<lparr>ret = Inl msg, entries = c, lookups = 1\<rparr>)"
  by (auto simp: lookup_def since_lt_iff split: option.splits)

theorem lookup_cache_contract_witness:
  "lookup (\<lambda>h. Inl ''no such host'') 200000000000 200000000001
       [''test.local'' \<mapsto> \<lparr>ip = ''10.0.0.1'', timestamp = 0\<rparr>] ''test.local''
     = Returns \<lparr>ret = Inr ''10.0.0.1'',
                entries = [''test.local'' \<mapsto> \<lparr>ip = ''10.0.0.1'', timestamp = 0\<rparr>], lookups = 0\<rparr> \<and>
   lookup (\<lambda>h. Inr [''10.0.0.2'', ''10.0.0.3'']) 300000000000 300000000007
       [''test.local'' \<mapsto> \<lparr>ip = ''10.0.0.1'', timestamp = 0\<rparr>] ''test.local''
     = Returns \<lparr>ret = Inr ''10.0.0.2'',
                entries = [''test.local'' \<mapsto> \<lparr>ip = ''10.0.0.2'', timestamp = 300000000007\<rparr>],
                lookups = 1\<rparr> \<and>
   lookup (\<lambda>h. Inl ''no such host'') 300000000000 300000000007
       [''test.local'' \<mapsto> \<lparr>ip = ''10.0.0.1'', timestamp = 0\<rparr>] ''test.local''
     = Returns \<lparr>ret = Inl ''no such host'',
                entries = [''test.local'' \<mapsto> \<lparr>ip = ''10.0.0.1'', timestamp = 0\<rparr>], lookups = 1\<rparr>"
  using
    lookup_cache_contract
      [of "[''test.local'' \<mapsto> \<lparr>ip = ''10.0.0.1'', timestamp = 0\<rparr>]" "''test.local''"
          "\<lparr>ip = ''10.0.0.1'', timestamp = 0\<rparr>" 200000000000 "\<lambda>h. Inl ''no such host''"
          200000000001]
    lookup_cache_contract
      [of "[''test.local'' \<mapsto> \<lparr>ip = ''10.0.0.1'', timestamp = 0\<rparr>]" "''test.local''"
          "\<lparr>ip = ''10.0.0.1'', timestamp = 0\<rparr>" 300000000000
          "\<lambda>h. Inr [''10.0.0.2'', ''10.0.0.3'']" 300000000007 "''10.0.0.2''" "[''10.0.0.3'']"]
    lookup_cache_contract
      [of "[''test.local'' \<mapsto> \<lparr>ip = ''10.0.0.1'', timestamp = 0\<rparr>]" "''test.local''"
          "\<lparr>ip = ''10.0.0.1'', timestamp = 0\<rparr>" 300000000000 "\<lambda>h. Inl ''no such host''"
          300000000007 _ _ "''no such host''"]
  by simp

text \<open>
  C9: \<^verbatim>\<open>cachedDialContext\<close> slices \<open>addr\<close> at the index of the last \<open>:\<close> without a check;
  for an address with no \<open>:\<close> the index is -1 and the call panics in the slice
  expression, whatever the cache, the resolver and the dialer are. With a \<open>:\<close> in the
  address the slice expressions do not panic.
\<close>

theorem cachedDialContext_no_colon_panics:
  "(CHR '':'' \<notin> set addr \<longrightarrow>
      LastIndex addr (CHR '':'') = - 1 \<and>
      cachedDialContext LookupHost dial t0 t1 c network addr
        = Panics ''slice bounds out of range'') \<and>
   (CHR '':'' \<in> set addr \<longrightarrow>
      cachedDialContext LookupHost dial t0 t1 c network addr
        \<noteq> Panics ''slice bounds out of range'')"
proof (rule conjI; rule impI)
  assume "CHR '':'' \<notin> set addr"
  then show "LastIndex addr (CHR '':'') = - 1 \<and>
      cachedDialContext LookupHost dial t0 t1 c network addr
        = Panics ''slice bounds out of range''"
    by (simp add: cachedDialContext_def LastIndex_absent slice_to_def slice_from_def)
next
  assume "CHR '':'' \<in> set addr"
  then have "0 \<le> LastIndex addr (CHR '':'')"
    by (rule LastIndex_present)
  moreover have "LastIndex addr (CHR '':'') < int (length addr)"
    using LastIndex_bounds [of addr "CHR '':''"] by simp
  ultimately show "cachedDialContext LookupHost dial t0 t1 c network addr
        \<noteq> Panics ''slice bounds out of range''"
    by (auto simp: cachedDialContext_def slice_to_def slice_from_def lookup_def Let_def
        split: option.splits sum.splits list.splits exec.splits)
qed

theorem cachedDialContext_no_colon_panics_witness:
  "LastIndex ''example.com'' (CHR '':'') = - 1 \<and>
   cachedDialContext (\<lambda>h. Inr [''10.0.0.1'']) (\<lambda>n a. Inr (0::nat)) 0 0 newDNSCache ''tcp''
       ''example.com''
     = Panics ''slice bounds out of range'' \<and>
   cachedDialContext (\<lambda>h. Inr [''10.0.0.1'']) (\<lambda>n a. Inr (0::nat)) 0 0 newDNSCache ''tcp''
       ''example.com:80''
     \<noteq> Panics ''slice bounds out of range''"
  using
    cachedDialContext_no_colon_panics
      [of "''example.com''" "\<lambda>h. Inr [''10.0.0.1'']" "\<lambda>n a. Inr (0::nat)" 0 0 newDNSCache
          "''tcp''"]
    cachedDialContext_no_colon_panics
      [of "''example.com:80''" "\<lambda>h. Inr [''10.0.0.1'']" "\<lambda>n a. Inr (0::nat)" 0 0 newDNSCache
          "''tcp''"]
  by simp

subsection \<open>The path loader\<close>

lemma split_line:
  "CHR 0x0A \<notin> set l \<Longrightarrow> splitLines cur (l @ CHR 0x0A # rest) = (cur @ l) # splitLines [] rest"
  by (induction l arbitrary: cur) auto

lemma splitLines_join:
  "\<forall>l\<in>set ls. CHR 0x0A \<notin> set l \<Longrightarrow> splitLines [] (concat (map (\<lambda>l. l @ [CHR 0x0A]) ls)) = ls"
  by (induction ls) (simp_all add: split_line)

lemma splitLines_unterminated:
  "xs \<noteq> [] \<Longrightarrow> last xs \<noteq> CHR 0x0A \<Longrightarrow> splitLines cur (xs @ [CHR 0x0A]) = splitLines cur xs"
proof (induction xs arbitrary: cur)
  case Nil
  then show ?case by simp
next
  case (Cons x xs)
  show ?case
  proof (cases "xs = []")
    case True
    then show ?thesis using Cons.prems by simp
  next
    case False
    then show ?thesis using Cons.prems Cons.IH by simp
  qed
qed

lemma lines_of_file:
  assumes "\<forall>l\<in>set ls. CHR 0x0A \<notin> set l"
    and "concat (map (\<lambda>l. l @ [CHR 0x0A]) ls) =
           (if d = [] \<or> last d = CHR 0x0A then d else d @ [CHR 0x0A])"
  shows "splitLines [] d = ls"
proof (cases "d = [] \<or> last d = CHR 0x0A")
  case True
  then show ?thesis using splitLines_join [OF assms(1)] assms(2) by simp
next
  case False
  then have "splitLines [] (d @ [CHR 0x0A]) = ls"
    using splitLines_join [OF assms(1)] assms(2) by simp
  then show ?thesis using False splitLines_unterminated [of d "[]"] by simp
qed

text \<open>
  C7, as the code has it. When the file cannot be opened \<^verbatim>\<open>loadPaths\<close> returns that
  error. Otherwise let \<open>ls\<close> be the lines of the file: strings without a newline that,
  each followed by a newline, concatenate to the file (with a newline added after an
  unterminated last line). When a line has 65536 bytes or more the scan stops and
  \<^verbatim>\<open>loadPaths\<close> returns \<^verbatim>\<open>bufio.ErrTooLong\<close>; when a read fails it returns that error;
  otherwise the strings it returns that are not blank are, in the order of the file,
  the lines with one trailing carriage return removed that are not blank: nothing else
  is trimmed. What becomes of blank lines is left open.
\<close>

theorem loadPaths_lines:
  "(Open filePath = Inl msg \<longrightarrow> loadPaths Open filePath = Inl msg) \<and>
   (Open filePath = Inr f \<and> (\<forall>l\<in>set ls. CHR 0x0A \<notin> set l) \<and>
    concat (map (\<lambda>l. l @ [CHR 0x0A]) ls) =
      (if data f = [] \<or> last (data f) = CHR 0x0A then data f else data f @ [CHR 0x0A]) \<longrightarrow>
      (if \<exists>l\<in>set ls. 65536 \<le> length l
       then loadPaths Open filePath = Inl ''bufio.Scanner: token too long''
       else case readErr f of
              Some msg' \<Rightarrow> loadPaths Open filePath = Inl msg'
            | None \<Rightarrow>
                (\<exists>paths. loadPaths Open filePath = Inr paths \<and>
                   filter (\<lambda>p. \<not> blank p) paths =
                     filter (\<lambda>p. \<not> blank p)
                       (map (\<lambda>l. if l \<noteq> [] \<and> last l = CHR 0x0D then butlast l else l) ls))))"
proof (rule conjI; rule impI)
  assume "Open filePath = Inl msg"
  then show "loadPaths Open filePath = Inl msg" by (simp add: loadPaths_def)
next
  assume a: "Open filePath = Inr f \<and> (\<forall>l\<in>set ls. CHR 0x0A \<notin> set l) \<and>
    concat (map (\<lambda>l. l @ [CHR 0x0A]) ls) =
      (if data f = [] \<or> last (data f) = CHR 0x0A then data f else data f @ [CHR 0x0A])"
  then have s: "splitLines [] (data f) = ls"
    using lines_of_file [of ls "data f"] by blast
  have d: "dropCR = (\<lambda>l. if l \<noteq> [] \<and> last l = CHR 0x0D then butlast l else l)"
    by (rule ext) (simp add: dropCR_def)
  show "if \<exists>l\<in>set ls. 65536 \<le> length l
       then loadPaths Open filePath = Inl ''bufio.Scanner: token too long''
       else case readErr f of
              Some msg' \<Rightarrow> loadPaths Open filePath = Inl msg'
            | None \<Rightarrow>
                (\<exists>paths. loadPaths Open filePath = Inr paths \<and>
                   filter (\<lambda>p. \<not> blank p) paths =
                     filter (\<lambda>p. \<not> blank p)
                       (map (\<lambda>l. if l \<noteq> [] \<and> last l = CHR 0x0D then butlast l else l) ls))"
    using a s
    by (auto simp: loadPaths_def scannerErr_def MaxScanTokenSize_def list_ex_iff Let_def d
        split: option.splits)
qed


theorem loadPaths_lines_witness:
  "loadPaths (\<lambda>p. Inl ''open paths.txt: no such file or directory'') ''paths.txt''
     = Inl ''open paths.txt: no such file or directory'' \<and>
   loadPaths (\<lambda>p. Inr \<lparr>data = replicate 65536 (CHR ''a''), readErr = None\<rparr>) ''paths.txt''
     = Inl ''bufio.Scanner: token too long'' \<and>
   loadPaths (\<lambda>p. Inr \<lparr>data = ''/admin'', readErr = Some ''read paths.txt: input/output error''\<rparr>)
       ''paths.txt''
     = Inl ''read paths.txt: input/output error'' \<and>
   loadPaths (\<lambda>p. Inr \<lparr>data = ''/a'' @ [CHR 0x0D, CHR 0x0A] @ '' /b '', readErr = None\<rparr>)
       ''paths.txt''
     = Inr [''/a'', '' /b '']"
proof -
  have 1: "loadPaths (\<lambda>p. Inl ''open paths.txt: no such file or directory'') ''paths.txt''
     = Inl ''open paths.txt: no such file or directory''"
    using loadPaths_lines
      [of "\<lambda>p. Inl ''open paths.txt: no such file or directory''" "''paths.txt''"
          "''open paths.txt: no such file or directory''"]
    by simp
  have 2: "loadPaths (\<lambda>p. Inr \<lparr>data = replicate 65536 (CHR ''a''), readErr = None\<rparr>) ''paths.txt''
     = Inl ''bufio.Scanner: token too long''"
    using loadPaths_lines
      [of "\<lambda>p. Inr \<lparr>data = replicate 65536 (CHR ''a''), readErr = None\<rparr>" "''paths.txt''" _
          "\<lparr>data = replicate 65536 (CHR ''a''), readErr = None\<rparr>"
          "[replicate 65536 (CHR ''a'')]"]
    by simp
  have 3: "loadPaths
       (\<lambda>p. Inr \<lparr>data = ''/admin'', readErr = Some ''read paths.txt: input/output error''\<rparr>)
       ''paths.txt''
     = Inl ''read paths.txt: input/output error''"
    using loadPaths_lines
      [of "\<lambda>p. Inr \<lparr>data = ''/admin'', readErr = Some ''read paths.txt: input/output error''\<rparr>"
          "''paths.txt''" _
          "\<lparr>data = ''/admin'', readErr = Some ''read paths.txt: input/output error''\<rparr>"
          "[''/admin'']"]
    by simp
  have "\<exists>paths. loadPaths
       (\<lambda>p. Inr \<lparr>data = ''/a'' @ [CHR 0x0D, CHR 0x0A] @ '' /b '', readErr = None\<rparr>) ''paths.txt''
         = Inr paths \<and> filter (\<lambda>p. \<not> blank p) paths = [''/a'', '' /b '']"
    using loadPaths_lines
      [of "\<lambda>p. Inr \<lparr>data = ''/a'' @ [CHR 0x0D, CHR 0x0A] @ '' /b '', readErr = None\<rparr>"
          "''paths.txt''" _
          "\<lparr>data = ''/a'' @ [CHR 0x0D, CHR 0x0A] @ '' /b '', readErr = None\<rparr>"
          "[''/a'' @ [CHR 0x0D], '' /b '']"]
    by (simp add: asciiSpace_def space2_def space3_def)
  then have 4: "loadPaths
       (\<lambda>p. Inr \<lparr>data = ''/a'' @ [CHR 0x0D, CHR 0x0A] @ '' /b '', readErr = None\<rparr>) ''paths.txt''
         = Inr [''/a'', '' /b '']"
    by (auto simp: loadPaths_def scannerErr_def MaxScanTokenSize_def dropCR_def)
  show ?thesis using 1 2 3 4 by simp
qed

text \<open>
  C7 as stated fails: an empty line and a line with blanks around it are returned as
  they stand.
\<close>

theorem loadPaths_keeps_blank_lines:
  "loadPaths (\<lambda>p. Inr \<lparr>data = ''/admin'' @ [CHR 0x0A, CHR 0x0A] @ '' /x '' @ [CHR 0x0A], readErr = None\<rparr>)
     ''paths.txt'' = Inr [''/admin'', [], '' /x '']"
  by (simp add: loadPaths_def scannerErr_def MaxScanTokenSize_def dropCR_def)

subsection \<open>The task executor\<close>

lemmas scan_defs = scanTarget_def attempts.simps attempt_def report_def finish_def wrap64_def
  Let_def StatusNotFound_def StatusOK_def StatusTooManyRequests_def

lemma attempt_frame:
  assumes "attempt e base path ua i t = c" and "c = Break t' \<or> c = Continue t' \<or> c = Return t'"
  shows "err t' = err t \<and> set (agents t') \<subseteq> insert ua (set (agents t))"
  using assms
  by (auto simp: attempt_def Let_def split: option.splits prod.splits if_splits)

lemma report_keeps: "err (report base path t) = err t \<and> agents (report base path t) = agents t"
  by (simp add: report_def split: option.splits)

lemma finish_attempts_frame:
  "err (finish base path (attempts e base path ua i t)) = err t \<and>
   set (agents (finish base path (attempts e base path ua i t))) \<subseteq> insert ua (set (agents t))"
proof (induction e base path ua i t rule: attempts.induct)
  case (1 e base path ua i t)
  show ?case
  proof (cases "i < 3")
    case False
    then show ?thesis
      by (auto simp: attempts.simps [of _ _ _ _ i] finish_def report_keeps)
  next
    case True
    show ?thesis
    proof (cases "attempt e base path ua i t")
      case (Break t')
      then show ?thesis
        using True attempt_frame [OF Break, of t']
        by (auto simp: attempts.simps [of _ _ _ _ i] finish_def report_keeps)
    next
      case (Return t')
      then show ?thesis
        using True attempt_frame [OF Return, of t']
        by (auto simp: attempts.simps [of _ _ _ _ i] finish_def)
    next
      case (Continue t')
      have eq: "attempts e base path ua i t = attempts e base path ua (i + 1) t'"
        using True Continue by (simp add: attempts.simps [of _ _ _ _ i])
      show ?thesis
        unfolding eq using "1.IH" [OF True Continue] attempt_frame [OF Continue, of t'] by auto
    qed
  qed
qed

text \<open>
  Whatever the network does, the call returns with its own \<^verbatim>\<open>err\<close> still \<^verbatim>\<open>nil\<close>, and every
  request of the task carries the user agent drawn before the loop.
\<close>

lemma scanTarget_err_nil_one_agent:
  "scanTarget e base path agentPool d = Returns t \<Longrightarrow>
     err t = None \<and> set (agents t) \<subseteq> {agentPool ! (Intn e 0 mod length agentPool)}"
  using finish_attempts_frame
    [of base path e "agentPool ! (Intn e 0 mod length agentPool)" 0
        "\<lparr>resp = None, err = None, cell = d, sent = [], slept = [], agents = []\<rparr>"]
  by (auto simp: scanTarget_def Let_def split: if_splits)

lemma attempts_built_request:
  "NewRequest e (base @ path) = None \<Longrightarrow>
   \<exists>t'. attempts e base path ua i t = Break t' \<and> sent t' = sent t \<and> err t' = err t"
proof (induction e base path ua i t rule: attempts.induct)
  case (1 e base path ua i t)
  show ?case
  proof (cases "i < 3")
    case False
    then show ?thesis by (simp add: attempts.simps [of _ _ _ _ i])
  next
    case True
    have a: "(\<exists>t'. attempt e base path ua i t = Break t' \<and> sent t' = sent t \<and> err t' = err t) \<or>
             (\<exists>t'. attempt e base path ua i t = Continue t' \<and> sent t' = sent t \<and> err t' = err t)"
      using "1.prems"
      by (auto simp: attempt_def Let_def split: option.splits prod.splits)
    then show ?thesis
    proof
      assume "\<exists>t'. attempt e base path ua i t = Break t' \<and> sent t' = sent t \<and> err t' = err t"
      then show ?thesis using True by (auto simp: attempts.simps [of _ _ _ _ i])
    next
      assume "\<exists>t'. attempt e base path ua i t = Continue t' \<and> sent t' = sent t \<and> err t' = err t"
      then obtain t' where c: "attempt e base path ua i t = Continue t'"
        and k: "sent t' = sent t" "err t' = err t" by blast
      have eq: "attempts e base path ua i t = attempts e base path ua (i + 1) t'"
        using True c by (simp add: attempts.simps [of _ _ _ _ i])
      show ?thesis
        unfolding eq using "1.IH" [OF True c "1.prems"] k by auto
    qed
  qed
qed

text \<open>
  So a task whose request can be built never sends a result that carries an error
  message.
\<close>

lemma scanTarget_never_reports_error:
  assumes "NewRequest e (base @ path) = None"
    and "scanTarget e base path agentPool d = Returns t"
  shows "\<forall>r\<in>set (sent t). ErrorMessage r = []"
proof -
  let ?ua = "agentPool ! (Intn e 0 mod length agentPool)"
  let ?t0 = "\<lparr>resp = None, err = None, cell = d, sent = [], slept = [], agents = []\<rparr>"
  obtain t' where b: "attempts e base path ?ua 0 ?t0 = Break t'" "sent t' = []" "err t' = None"
    using attempts_built_request [OF assms(1), of ?ua 0 ?t0] by auto
  have "t = report base path t'"
    using assms(2) b(1) by (auto simp: scanTarget_def Let_def finish_def split: if_splits)
  then show ?thesis
    using b(2,3) by (auto simp: report_def split: option.splits if_splits)
qed

text \<open>
  C1: three attempts that all fail with a transport error leave \<^verbatim>\<open>scanTarget\<close> with its
  own \<^verbatim>\<open>err\<close> still \<^verbatim>\<open>nil\<close> and \<^verbatim>\<open>resp\<close> \<^verbatim>\<open>nil\<close>: it sleeps three times and sends nothing,
  where the claim asks for one result carrying the error.
\<close>

theorem scanTarget_exhausted_sends_nothing:
  "scanTarget unreachable ''http://test.local'' ''/admin'' [''A''] 100000000 =
     Returns \<lparr>resp = None, err = None, cell = 800000000, sent = [],
              slept = [100000000, 200000000, 400000000], agents = [''A'', ''A'', ''A'']\<rparr>"
  by (simp add: scan_defs unreachable_def)

text \<open>
  C8: the user agent is drawn once, before the loop. With the pool A, B, C and a random
  source whose successive draws would select B, C, A, all three attempts of a task carry
  B.
\<close>

theorem scanTarget_one_agent_per_task:
  "scanTarget (unreachable\<lparr>Intn := (\<lambda>k. k + 1)\<rparr>) ''http://test.local'' ''/secret''
       [''A'', ''B'', ''C''] 100000000 =
     Returns \<lparr>resp = None, err = None, cell = 800000000, sent = [],
              slept = [100000000, 200000000, 400000000], agents = [''B'', ''B'', ''B'']\<rparr>"
  by (simp add: scan_defs unreachable_def)

text \<open>
  C4 as stated fails on both halves: a 503 ends the task at its first attempt, with no
  backoff, and is sent as \<open>Unknown\<close>; a 404 is followed by two more attempts.
\<close>

theorem scanTarget_503_terminal_404_retried:
  "scanTarget (answering 503) ''http://test.local'' ''/admin'' [''A''] 100000000 =
     Returns \<lparr>resp = Some 503, err = None, cell = 100000000,
              sent = [\<lparr>URL = ''http://test.local/admin'', StatusCode = 503, Status = ''Unknown'',
                       ErrorMessage = []\<rparr>],
              slept = [], agents = [''A'']\<rparr> \<and>
   scanTarget (answering 404) ''http://test.local'' ''/admin'' [''A''] 100000000 =
     Returns \<lparr>resp = Some 404, err = None, cell = 100000000, sent = [],
              slept = [], agents = [''A'', ''A'', ''A'']\<rparr>"
  by (simp add: scan_defs answering_def)

text \<open>
  C4, as the code has it, for an attempt \<open>i\<close> of the loop whose request was built, in a
  task whose own \<^verbatim>\<open>err\<close> is \<^verbatim>\<open>nil\<close>: a response without error and with a status other than
  404 (200, 429, and any status from 500 on as well) ends the loop, and the task sends
  one result with that status and makes no further attempt; a 404 is followed by the
  next attempt at once, without sleeping, and the third 404 ends the task with nothing
  sent; a transport error, at each of the three attempts, sleeps for the adaptive delay
  and doubles it, and is followed by the next attempt while one remains; after the
  third the loop is left.
\<close>

theorem attempts_transitions:
  assumes "NewRequest e (base @ path) = None" and "i < 3" and "err t = None"
  shows
    "(Do e (base @ path) ua i = (Some code, None) \<and> code \<noteq> 404 \<longrightarrow>
        finish base path (attempts e base path ua i t) =
          t\<lparr>resp := Some code, agents := agents t @ [ua],
            sent := sent t @
              [\<lparr>URL = base @ path, StatusCode = code,
                Status = (if code = 200 then ''Found''
                          else if code = 429 then ''Rate limited'' else ''Unknown''),
                ErrorMessage = []\<rparr>]\<rparr>) \<and>
     (Do e (base @ path) ua i = (Some 404, None) \<and> i < 2 \<longrightarrow>
        attempts e base path ua i t =
          attempts e base path ua (i + 1) (t\<lparr>resp := Some 404, agents := agents t @ [ua]\<rparr>)) \<and>
     (Do e (base @ path) ua i = (Some 404, None) \<and> i = 2 \<longrightarrow>
        finish base path (attempts e base path ua i t) =
          t\<lparr>resp := Some 404, agents := agents t @ [ua]\<rparr>) \<and>
     (Do e (base @ path) ua i = (r, Some m) \<longrightarrow>
        attempts e base path ua i t =
          (if i < 2
           then attempts e base path ua (i + 1)
                  (t\<lparr>resp := r, agents := agents t @ [ua], slept := slept t @ [cell t],
                     cell := wrap64 (cell t * 2)\<rparr>)
           else Break (t\<lparr>resp := r, agents := agents t @ [ua], slept := slept t @ [cell t],
                         cell := wrap64 (cell t * 2)\<rparr>)))"
proof (intro conjI impI)
  assume a: "Do e (base @ path) ua i = (Some code, None) \<and> code \<noteq> 404"
  have "attempt e base path ua i t = Break (t\<lparr>resp := Some code, agents := agents t @ [ua]\<rparr>)"
    using assms(1) a by (simp add: attempt_def StatusNotFound_def)
  then have "attempts e base path ua i t = Break (t\<lparr>resp := Some code, agents := agents t @ [ua]\<rparr>)"
    using assms(2) by (simp add: attempts.simps [of _ _ _ _ i])
  then show "finish base path (attempts e base path ua i t) =
          t\<lparr>resp := Some code, agents := agents t @ [ua],
            sent := sent t @
              [\<lparr>URL = base @ path, StatusCode = code,
                Status = (if code = 200 then ''Found''
                          else if code = 429 then ''Rate limited'' else ''Unknown''),
                ErrorMessage = []\<rparr>]\<rparr>"
    using assms(3) a
    by (simp add: finish_def report_def StatusNotFound_def StatusOK_def StatusTooManyRequests_def)
next
  assume a: "Do e (base @ path) ua i = (Some 404, None) \<and> i < 2"
  have "attempt e base path ua i t = Continue (t\<lparr>resp := Some 404, agents := agents t @ [ua]\<rparr>)"
    using assms(1) a by (simp add: attempt_def StatusNotFound_def)
  then show "attempts e base path ua i t =
          attempts e base path ua (i + 1) (t\<lparr>resp := Some 404, agents := agents t @ [ua]\<rparr>)"
    using assms(2) by (simp add: attempts.simps [of _ _ _ _ i])
next
  assume a: "Do e (base @ path) ua i = (Some 404, None) \<and> i = 2"
  then have d: "Do e (base @ path) ua i = (Some 404, None)" and i2: "i = 2" by auto
  have "attempt e base path ua i t = Continue (t\<lparr>resp := Some 404, agents := agents t @ [ua]\<rparr>)"
    using assms(1) d by (simp add: attempt_def StatusNotFound_def)
  then have "attempts e base path ua i t = Break (t\<lparr>resp := Some 404, agents := agents t @ [ua]\<rparr>)"
    unfolding i2 by (simp add: attempts.simps [of _ _ _ _ 2] attempts.simps [of _ _ _ _ 3])
  then show "finish base path (attempts e base path ua i t) =
          t\<lparr>resp := Some 404, agents := agents t @ [ua]\<rparr>"
    using assms(3) by (simp add: finish_def report_def StatusNotFound_def)
next
  assume a: "Do e (base @ path) ua i = (r, Some m)"
  let ?t' = "t\<lparr>resp := r, agents := agents t @ [ua], slept := slept t @ [cell t],
                cell := wrap64 (cell t * 2)\<rparr>"
  have c: "attempt e base path ua i t = Continue ?t'"
    using assms(1) a by (simp add: attempt_def)
  show "attempts e base path ua i t =
          (if i < 2
           then attempts e base path ua (i + 1)
                  (t\<lparr>resp := r, agents := agents t @ [ua], slept := slept t @ [cell t],
                     cell := wrap64 (cell t * 2)\<rparr>)
           else Break (t\<lparr>resp := r, agents := agents t @ [ua], slept := slept t @ [cell t],
                         cell := wrap64 (cell t * 2)\<rparr>))"
  proof (cases "i < 2")
    case True
    then show ?thesis
      using c assms(2) by (simp add: attempts.simps [of _ _ _ _ i])
  next
    case False
    then have i2: "i = 2" using assms(2) by simp
    show ?thesis
      using c unfolding i2
      by (simp add: attempts.simps [of _ _ _ _ 2] attempts.simps [of _ _ _ _ 3])
  qed
qed

theorem attempts_transitions_witness:
  "finish ''http://test.local'' ''/admin''
     (attempts (answering 503) ''http://test.local'' ''/admin'' ''A'' 0
        \<lparr>resp = None, err = None, cell = 100000000, sent = [], slept = [], agents = []\<rparr>) =
     \<lparr>resp = Some 503, err = None, cell = 100000000,
      sent = [\<lparr>URL = ''http://test.local/admin'', StatusCode = 503, Status = ''Unknown'',
               ErrorMessage = []\<rparr>],
      slept = [], agents = [''A'']\<rparr> \<and>
   attempts (answering 404) ''http://test.local'' ''/admin'' ''A'' 1
       \<lparr>resp = Some 404, err = None, cell = 100000000, sent = [], slept = [],
        agents = [''A'']\<rparr> =
     attempts (answering 404) ''http://test.local'' ''/admin'' ''A'' 2
       \<lparr>resp = Some 404, err = None, cell = 100000000, sent = [], slept = [],
        agents = [''A'', ''A'']\<rparr> \<and>
   finish ''http://test.local'' ''/admin''
     (attempts (answering 404) ''http://test.local'' ''/admin'' ''A'' 2
        \<lparr>resp = Some 404, err = None, cell = 100000000, sent = [], slept = [],
         agents = [''A'', ''A'']\<rparr>) =
     \<lparr>resp = Some 404, err = None, cell = 100000000, sent = [], slept = [],
      agents = [''A'', ''A'', ''A'']\<rparr> \<and>
   attempts unreachable ''http://test.local'' ''/admin'' ''A'' 0
       \<lparr>resp = None, err = None, cell = 100000000, sent = [], slept = [], agents = []\<rparr> =
     Break \<lparr>resp = None, err = None, cell = 800000000, sent = [],
            slept = [100000000, 200000000, 400000000], agents = [''A'', ''A'', ''A'']\<rparr>"
  using
    attempts_transitions
      [of "answering 503" "''http://test.local''" "''/admin''" 0
          "\<lparr>resp = None, err = None, cell = 100000000, sent = [], slept = [], agents = []\<rparr>"
          "''A''" 503]
    attempts_transitions
      [of "answering 404" "''http://test.local''" "''/admin''" 1
          "\<lparr>resp = Some 404, err = None, cell = 100000000, sent = [], slept = [],
            agents = [''A'']\<rparr>" "''A''"]
    attempts_transitions
      [of "answering 404" "''http://test.local''" "''/admin''" 2
          "\<lparr>resp = Some 404, err = None, cell = 100000000, sent = [], slept = [],
            agents = [''A'', ''A'']\<rparr>" "''A''"]
    attempts_transitions
      [of unreachable "''http://test.local''" "''/admin''" 0
          "\<lparr>resp = None, err = None, cell = 100000000, sent = [], slept = [], agents = []\<rparr>"
          "''A''" _ None "''dial tcp: i/o timeout''"]
    attempts_transitions
      [of unreachable "''http://test.local''" "''/admin''" 1
          "\<lparr>resp = None, err = None, cell = 200000000, sent = [], slept = [100000000],
            agents = [''A'']\<rparr>"
          "''A''" _ None "''dial tcp: i/o timeout''"]
    attempts_transitions
      [of unreachable "''http://test.local''" "''/admin''" 2
          "\<lparr>resp = None, err = None, cell = 400000000, sent = [],
            slept = [100000000, 200000000], agents = [''A'', ''A'']\<rparr>"
          "''A''" _ None "''dial tcp: i/o timeout''"]
  by (simp add: answering_def unreachable_def wrap64_def numeral_2_eq_2)

text \<open>
  C6: a task whose first attempt is answered with 429 makes that one attempt, does not
  sleep, sends the single result for the rate limit and returns; the adaptive delay is
  left as it was. This holds for \<^verbatim>\<open>scanTarget\<close> of \<^verbatim>\<open>scan.go\<close> and for the one of
  \<^verbatim>\<open>cmd/main.go\<close>.
\<close>

theorem scanTarget_429_single_attempt:
  "(agentPool \<noteq> [] \<and> NewRequest e (base @ path) = None \<and>
    Do e (base @ path) (agentPool ! (Intn e 0 mod length agentPool)) 0 = (Some 429, None) \<longrightarrow>
      scanTarget e base path agentPool d =
        Returns \<lparr>resp = Some 429, err = None, cell = d,
                 sent = [\<lparr>URL = base @ path, StatusCode = 429, Status = ''Rate limited'',
                          ErrorMessage = []\<rparr>],
                 slept = [], agents = [agentPool ! (Intn e 0 mod length agentPool)]\<rparr>) \<and>
   (agentPool \<noteq> [] \<and> NewRequest e (TrimSpace (base @ path)) = None \<and>
    Do e (TrimSpace (base @ path)) (agentPool ! (Intn e 0 mod length agentPool)) 0
      = (Some 429, None) \<longrightarrow>
      scanTarget_cmd e TrimSpace base path agentPool d =
        Returns \<lparr>delay = d,
                 printed = [''[RATE LIMIT] Too Many Requests '' @ base @ path @
                            '' (Status: 429)'' @ [CHR 0x0A]],
                 naps = [], headers = [agentPool ! (Intn e 0 mod length agentPool)],
                 draws = 1\<rparr>)"
proof (intro conjI impI)
  assume "agentPool \<noteq> [] \<and> NewRequest e (base @ path) = None \<and>
    Do e (base @ path) (agentPool ! (Intn e 0 mod length agentPool)) 0 = (Some 429, None)"
  then show "scanTarget e base path agentPool d =
        Returns \<lparr>resp = Some 429, err = None, cell = d,
                 sent = [\<lparr>URL = base @ path, StatusCode = 429, Status = ''Rate limited'',
                          ErrorMessage = []\<rparr>],
                 slept = [], agents = [agentPool ! (Intn e 0 mod length agentPool)]\<rparr>"
    by (simp add: scanTarget_def attempts.simps [of _ _ _ _ 0] attempt_def report_def finish_def
        StatusNotFound_def StatusOK_def StatusTooManyRequests_def Let_def)
next
  assume "agentPool \<noteq> [] \<and> NewRequest e (TrimSpace (base @ path)) = None \<and>
    Do e (TrimSpace (base @ path)) (agentPool ! (Intn e 0 mod length agentPool)) 0
      = (Some 429, None)"
  then show "scanTarget_cmd e TrimSpace base path agentPool d =
        Returns \<lparr>delay = d,
                 printed = [''[RATE LIMIT] Too Many Requests '' @ base @ path @
                            '' (Status: 429)'' @ [CHR 0x0A]],
                 naps = [], headers = [agentPool ! (Intn e 0 mod length agentPool)],
                 draws = 1\<rparr>"
    by (simp add: scanTarget_cmd_def attempts_cmd.simps [of _ _ _ _ _ 0] attempt_cmd_def
        StatusTooManyRequests_def Let_def)
qed

theorem scanTarget_429_single_attempt_witness:
  "scanTarget (answering 429) ''http://test.local'' ''/login'' [''A'', ''B''] 100000000 =
     Returns \<lparr>resp = Some 429, err = None, cell = 100000000,
              sent = [\<lparr>URL = ''http://test.local/login'', StatusCode = 429,
                       Status = ''Rate limited'', ErrorMessage = []\<rparr>],
              slept = [], agents = [''A'']\<rparr> \<and>
   scanTarget_cmd (answering 429) id ''http://test.local'' ''/login'' [''A'', ''B''] 100000000 =
     Returns \<lparr>delay = 100000000,
              printed = [''[RATE LIMIT] Too Many Requests http://test.local/login (Status: 429)'' @
                         [CHR 0x0A]],
              naps = [], headers = [''A''], draws = 1\<rparr>"
  using scanTarget_429_single_attempt
    [of "[''A'', ''B'']" "answering 429" "''http://test.local''" "''/login''" 100000000 id]
  by (simp add: answering_def)

text \<open>
  For comparison, the task of \<^verbatim>\<open>cmd/main.go\<close> on an unreachable host: it draws a user
  agent for each attempt, doubles its own copy of the delay, and sends one error per
  failed attempt.
\<close>

lemma scanTarget_cmd_unreachable:
  "scanTarget_cmd unreachable id ''http://test.local'' ''/admin'' [''A'', ''B''] 100000000 =
     Returns \<lparr>delay = 800000000,
              printed = replicate 3 (''[ERROR] Failed to scan http://test.local/admin: '' @
                                     ''dial tcp: i/o timeout'' @ [CHR 0x0A]),
              naps = [100000000, 200000000, 400000000],
              headers = [''A'', ''B'', ''A''], draws = 3\<rparr>"
  by (simp add: scanTarget_cmd_def attempts_cmd.simps attempt_cmd_def wrap64_def Let_def
      StatusTooManyRequests_def unreachable_def numeral_3_eq_3)

text \<open>
  In \<^verbatim>\<open>cmd/main.go\<close> a status outside 200..299 other than 429 (a 404 as much as a 503)
  sleeps for the task's own delay, doubles it, and is followed by the next attempt.
\<close>

lemma attempts_cmd_other_status:
  assumes "agentPool \<noteq> []" and "NewRequest e (TrimSpace (base @ path)) = None" and "i < 3"
    and "Do e (TrimSpace (base @ path)) (agentPool ! (Intn e (draws t) mod length agentPool)) i
           = (Some code, None)"
    and "\<not> (200 \<le> code \<and> code < 300)" and "code \<noteq> 429"
  shows "attempts_cmd e TrimSpace base path agentPool i t =
           attempts_cmd e TrimSpace base path agentPool (i + 1)
             (t\<lparr>draws := draws t + 1,
                headers := headers t @ [agentPool ! (Intn e (draws t) mod length agentPool)],
                naps := naps t @ [delay t], delay := wrap64 (delay t * 2)\<rparr>)"
  using assms
  by (auto simp: attempts_cmd.simps [of _ _ _ _ _ i] attempt_cmd_def Let_def
      StatusTooManyRequests_def)

subsection \<open>The adaptive delay\<close>

lemma wrap64_id: "- (2 ^ 63) \<le> x \<Longrightarrow> x < 2 ^ 63 \<Longrightarrow> wrap64 x = x"
  by (simp add: wrap64_def)

lemma wrap64_mult: "wrap64 (wrap64 x * y) = wrap64 (x * y)"
proof -
  have "(wrap64 x * y + 2 ^ 63) mod 2 ^ 64 = (x * y + 2 ^ 63) mod 2 ^ 64"
  proof -
    have "wrap64 x mod 2 ^ 64 = x mod 2 ^ 64"
      unfolding wrap64_def by (simp add: mod_diff_left_eq)
    then have "(wrap64 x * y) mod 2 ^ 64 = (x * y) mod 2 ^ 64"
      by (metis mod_mult_left_eq)
    then show ?thesis
      by (metis mod_add_left_eq)
  qed
  then show ?thesis
    by (simp add: wrap64_def)
qed

lemma attempt_cell:
  assumes "attempt e base path ua i t = c" and "c = Break t' \<or> c = Continue t' \<or> c = Return t'"
  shows "(cell t' = cell t \<and> slept t' = slept t) \<or>
         (cell t' = wrap64 (cell t * 2) \<and> slept t' = slept t @ [cell t])"
  using assms
  by (auto simp: attempt_def Let_def split: option.splits prod.splits if_splits)

lemma attempt_doubling:
  assumes "cell t = wrap64 (d * 2 ^ length (slept t))"
    and "slept t = map (\<lambda>k. wrap64 (d * 2 ^ k)) [0..<length (slept t)]"
    and "attempt e base path ua i t = c" and "c = Break t' \<or> c = Continue t' \<or> c = Return t'"
  shows "cell t' = wrap64 (d * 2 ^ length (slept t')) \<and>
         slept t' = map (\<lambda>k. wrap64 (d * 2 ^ k)) [0..<length (slept t')]"
proof -
  from attempt_cell [OF assms(3,4)]
  show ?thesis
  proof
    assume "cell t' = cell t \<and> slept t' = slept t"
    then show ?thesis using assms(1,2) by simp
  next
    assume a: "cell t' = wrap64 (cell t * 2) \<and> slept t' = slept t @ [cell t]"
    have "wrap64 (cell t * 2) = wrap64 (d * 2 ^ Suc (length (slept t)))"
      using assms(1) wrap64_mult [of "d * 2 ^ length (slept t)" 2] by (simp add: ac_simps)
    moreover have "slept t @ [cell t] = map (\<lambda>k. wrap64 (d * 2 ^ k)) [0..<Suc (length (slept t))]"
      using assms(1,2) by simp
    ultimately show ?thesis using a by simp
  qed
qed

lemma report_frame: "slept (report base path t) = slept t \<and> cell (report base path t) = cell t"
  by (simp add: report_def split: option.splits)

lemma finish_attempts_doubling:
  "cell t = wrap64 (d * 2 ^ length (slept t)) \<Longrightarrow>
   slept t = map (\<lambda>k. wrap64 (d * 2 ^ k)) [0..<length (slept t)] \<Longrightarrow>
   cell (finish base path (attempts e base path ua i t)) =
     wrap64 (d * 2 ^ length (slept (finish base path (attempts e base path ua i t)))) \<and>
   slept (finish base path (attempts e base path ua i t)) =
     map (\<lambda>k. wrap64 (d * 2 ^ k))
       [0..<length (slept (finish base path (attempts e base path ua i t)))]"
proof (induction e base path ua i t rule: attempts.induct)
  case (1 e base path ua i t)
  show ?case
  proof (cases "i < 3")
    case False
    then show ?thesis
      using "1.prems" by (simp add: attempts.simps [of _ _ _ _ i] finish_def report_frame)
  next
    case True
    show ?thesis
    proof (cases "attempt e base path ua i t")
      case (Break t')
      then show ?thesis
        using True attempt_doubling [OF "1.prems" Break, of t']
        by (simp add: attempts.simps [of _ _ _ _ i] finish_def report_frame)
    next
      case (Return t')
      then show ?thesis
        using True attempt_doubling [OF "1.prems" Return, of t']
        by (simp add: attempts.simps [of _ _ _ _ i] finish_def)
    next
      case (Continue t')
      have s: "cell t' = wrap64 (d * 2 ^ length (slept t')) \<and>
               slept t' = map (\<lambda>k. wrap64 (d * 2 ^ k)) [0..<length (slept t')]"
        using attempt_doubling [OF "1.prems" Continue, of t'] by simp
      have eq: "attempts e base path ua i t = attempts e base path ua (i + 1) t'"
        using True Continue by (simp add: attempts.simps [of _ _ _ _ i])
      show ?thesis
        unfolding eq using "1.IH" [OF True Continue] s by blast
    qed
  qed
qed

lemma scanTarget_doubling:
  assumes "agentPool \<noteq> []" and "- (2 ^ 63) \<le> d" and "d < 2 ^ 63"
  shows "\<exists>t. scanTarget e base path agentPool d = Returns t \<and>
           cell t = wrap64 (d * 2 ^ length (slept t)) \<and>
           slept t = map (\<lambda>k. wrap64 (d * 2 ^ k)) [0..<length (slept t)]"
proof -
  let ?ua = "agentPool ! (Intn e 0 mod length agentPool)"
  let ?t0 = "\<lparr>resp = None, err = None, cell = d, sent = [], slept = [], agents = []\<rparr>"
  have r: "scanTarget e base path agentPool d =
             Returns (finish base path (attempts e base path ?ua 0 ?t0))"
    using assms(1) by (simp add: scanTarget_def Let_def)
  have "cell ?t0 = wrap64 (d * 2 ^ length (slept ?t0))"
    using wrap64_id [OF assms(2,3)] by simp
  then show ?thesis
    unfolding r using finish_attempts_doubling [of ?t0 d base path e ?ua 0] by simp
qed

lemma wrap64_range: "- (2 ^ 63) \<le> wrap64 x \<and> wrap64 x < 2 ^ 63"
proof -
  have "0 \<le> (x + 2 ^ 63) mod 2 ^ 64" "(x + 2 ^ 63) mod 2 ^ 64 < (2 ^ 64 :: int)"
    by simp_all
  then show ?thesis unfolding wrap64_def by simp
qed

lemma doubling_append:
  "map (\<lambda>k. wrap64 ((d::int) * 2 ^ k)) [0..<a] @
   map (\<lambda>k. wrap64 (wrap64 (d * 2 ^ a) * 2 ^ k)) [0..<b] =
   map (\<lambda>k. wrap64 (d * 2 ^ k)) [0..<a + b]"
  by (induction b) (simp_all add: wrap64_mult power_add mult.assoc)

lemma worker_doubling:
  "userAgents config \<noteq> [] \<Longrightarrow> - (2 ^ 63) \<le> adaptiveDelay config \<Longrightarrow>
   adaptiveDelay config < 2 ^ 63 \<Longrightarrow>
   \<exists>r. worker es n config paths = Returns r \<and>
       sleeps r = map (\<lambda>k. wrap64 (adaptiveDelay config * 2 ^ k)) [0..<length (sleeps r)] \<and>
       adaptiveDelay (finalConfig r) = wrap64 (adaptiveDelay config * 2 ^ length (sleeps r))"
proof (induction paths arbitrary: config n)
  case Nil
  then show ?case by (simp add: wrap64_id)
next
  case (Cons path paths)
  let ?d = "adaptiveDelay config"
  obtain t where t: "scanTarget (es n) (baseURL config) path (userAgents config) ?d = Returns t"
      "cell t = wrap64 (?d * 2 ^ length (slept t))"
      "slept t = map (\<lambda>k. wrap64 (?d * 2 ^ k)) [0..<length (slept t)]"
    using scanTarget_doubling [OF Cons.prems] by blast
  let ?c = "config\<lparr>adaptiveDelay := cell t\<rparr>"
  have "userAgents ?c \<noteq> []" "- (2 ^ 63) \<le> adaptiveDelay ?c" "adaptiveDelay ?c < 2 ^ 63"
    using Cons.prems(1) t(2) wrap64_range [of "?d * 2 ^ length (slept t)"] by simp_all
  from Cons.IH [OF this]
  obtain r where r: "worker es (Suc n) ?c paths = Returns r"
      "sleeps r = map (\<lambda>k. wrap64 (cell t * 2 ^ k)) [0..<length (sleeps r)]"
      "adaptiveDelay (finalConfig r) = wrap64 (cell t * 2 ^ length (sleeps r))"
    by auto
  let ?r = "r\<lparr>outcomes := sent t @ outcomes r, sleeps := slept t @ sleeps r\<rparr>"
  have w: "worker es n config (path # paths) = Returns ?r"
    using t(1) r(1) by simp
  have "slept t @ sleeps r =
          map (\<lambda>k. wrap64 (?d * 2 ^ k)) [0..<length (slept t)] @
          map (\<lambda>k. wrap64 (wrap64 (?d * 2 ^ length (slept t)) * 2 ^ k)) [0..<length (sleeps r)]"
    using t(2,3) r(2) by simp
  then have s: "sleeps ?r = map (\<lambda>k. wrap64 (?d * 2 ^ k)) [0..<length (sleeps ?r)]"
    by (simp add: doubling_append)
  have f: "adaptiveDelay (finalConfig ?r) = wrap64 (?d * 2 ^ length (sleeps ?r))"
    using r(3) t(2) by (simp add: wrap64_mult power_add mult.assoc)
  show ?case
    unfolding w using s f by blast
qed


lemma geometric_sorted: "0 \<le> (d::int) \<Longrightarrow> sorted (map (\<lambda>k. d * 2 ^ k) [0..<m])"
proof -
  assume d: "0 \<le> d"
  have "d * 2 ^ i \<le> d * 2 ^ j" if "i \<le> j" for i j :: nat
    using d that by (intro mult_left_mono power_increasing) auto
  then show ?thesis
    by (simp add: sorted_iff_nth_mono)
qed

lemma geometric_falling: "(d::int) < 0 \<Longrightarrow> sorted_wrt (\<lambda>x y. y < x) (map (\<lambda>k. d * 2 ^ k) [0..<m])"
proof -
  assume d: "d < 0"
  have "d * 2 ^ j < d * 2 ^ i" if "i < j" for i j :: nat
  proof -
    have "(2::int) ^ i < 2 ^ j" using that by simp
    then show ?thesis using d by (simp add: mult_less_cancel_left)
  qed
  then show ?thesis
    by (simp add: sorted_wrt_iff_nth_less)
qed

lemma doubling_in_range:
  assumes "(0 \<le> d \<and> d * 2 ^ m < 2 ^ 63) \<or> (d < 0 \<and> - (2 ^ 63) \<le> d * 2 ^ m)"
  shows "map (\<lambda>k. wrap64 (d * 2 ^ k)) [0..<Suc m] = map (\<lambda>k. d * 2 ^ k) [0..<Suc m]"
proof (rule map_cong [OF refl])
  fix k assume "k \<in> set [0..<Suc m]"
  then have k: "k \<le> m" by auto
  then have p: "(2::int) ^ k \<le> 2 ^ m" by simp
  have z: "(0::int) \<le> 2 ^ 63" by simp
  from assms show "wrap64 (d * 2 ^ k) = d * 2 ^ k"
  proof
    assume a: "0 \<le> d \<and> d * 2 ^ m < 2 ^ 63"
    then have le: "d * 2 ^ k \<le> d * 2 ^ m" using p by (intro mult_left_mono) auto
    have nn: "0 \<le> d * 2 ^ k" using a by simp
    have "- (2 ^ 63) \<le> d * 2 ^ k" using nn z by linarith
    moreover have "d * 2 ^ k < 2 ^ 63" using le a by linarith
    ultimately show ?thesis by (rule wrap64_id)
  next
    assume a: "d < 0 \<and> - (2 ^ 63) \<le> d * 2 ^ m"
    then have le: "d * 2 ^ m \<le> d * 2 ^ k" using p by (intro mult_left_mono_neg) auto
    have ng: "d * 2 ^ k < 0" using a by (simp add: mult_less_0_iff)
    have "- (2 ^ 63) \<le> d * 2 ^ k" using le a by linarith
    moreover have "d * 2 ^ k < 2 ^ 63" using ng z by linarith
    ultimately show ?thesis by (rule wrap64_id)
  qed
qed

text \<open>
  C3: the worker hands \<^verbatim>\<open>&config.adaptiveDelay\<close> to every task, and a task doubles the
  cell after each failed attempt: after one path on an unreachable host the
  configuration holds 800ms where it held 100ms.
\<close>

theorem worker_doubles_config_delay:
  "worker (\<lambda>n. unreachable) 0 example [''/admin''] =
     Returns \<lparr>finalConfig = example\<lparr>adaptiveDelay := 800000000\<rparr>, outcomes = [],
              sleeps = [100000000, 200000000, 400000000]\<rparr>"
  by (simp add: scan_defs unreachable_def example_def)

text \<open>
  A call that runs alone, statement by statement, ends as \<^verbatim>\<open>scanTarget\<close> does: with the
  same cell, the same sleeps and the same results sent.
\<close>

lemma runCalls_append:
  "runCalls e base (ks @ ks') s =
     (case runCalls e base ks s of None \<Rightarrow> None | Some s' \<Rightarrow> runCalls e base ks' s')"
  by (induction ks arbitrary: s) (auto split: option.splits)

lemma call_report:
  assumes "err t = None"
  shows "callStep e base 0
           \<lparr>sharedCell = x, sleepLog = l,
            calls = [\<lparr>callPath = path, callAgent = ua, attemptNo = i, callResp = resp t,
                      callAt = AtReport, callSent = sent t\<rparr>]\<rparr> =
         Some \<lparr>sharedCell = x, sleepLog = l,
               calls = [\<lparr>callPath = path, callAgent = ua, attemptNo = i, callResp = resp t,
                         callAt = AtEnd, callSent = sent (report base path t)\<rparr>]\<rparr>"
  using assms by (simp add: callStep_def report_def split: option.splits)

lemma call_alone:
  "err t = None \<Longrightarrow>
   \<exists>ks j. set ks \<subseteq> {0} \<and>
     runCalls e base ks
       \<lparr>sharedCell = cell t, sleepLog = slept t,
        calls = [\<lparr>callPath = path, callAgent = ua, attemptNo = i, callResp = resp t,
                  callAt = AtLoop, callSent = sent t\<rparr>]\<rparr> =
     Some \<lparr>sharedCell = cell (finish base path (attempts e base path ua i t)),
           sleepLog = slept (finish base path (attempts e base path ua i t)),
           calls = [\<lparr>callPath = path, callAgent = ua, attemptNo = j,
                     callResp = resp (finish base path (attempts e base path ua i t)),
                     callAt = AtEnd,
                     callSent = sent (finish base path (attempts e base path ua i t))\<rparr>]\<rparr>"
proof (induction e base path ua i t rule: attempts.induct)
  case (1 e base path ua i t)
  let ?S = "\<lambda>(t::task) j a. \<lparr>sharedCell = cell t, sleepLog = slept t,
        calls = [\<lparr>callPath = path, callAgent = ua, attemptNo = j, callResp = resp t,
                  callAt = a, callSent = sent t\<rparr>]\<rparr>"
  have fr: "cell (report base path u) = cell u \<and> slept (report base path u) = slept u \<and>
            resp (report base path u) = resp u" for u
    by (simp add: report_def split: option.splits)
  have rep: "runCalls e base [0] (?S u j AtReport) = Some (?S (report base path u) j AtEnd)"
    if "err u = None" for u j
    using call_report [OF that, of e base "cell u" "slept u" path ua j] fr [of u] by simp
  show ?case
  proof (cases "i < 3")
    case False
    have a: "attempts e base path ua i t = Break t"
      using False by (simp add: attempts.simps [of _ _ _ _ i])
    have "callStep e base 0 (?S t i AtLoop) = Some (?S t i AtReport)"
      using False by (simp add: callStep_def)
    then have "runCalls e base [0, 0] (?S t i AtLoop) = Some (?S (report base path t) i AtEnd)"
      using rep [OF "1.prems", of i] by simp
    then show ?thesis
      unfolding a finish_def by (intro exI [of _ "[0, 0]"] exI [of _ i]) simp
  next
    case True
    show ?thesis
    proof (cases "NewRequest e (base @ path)")
      case (Some err')
      let ?t' = "if \<not> Contains err' ''404''
                 then t\<lparr>sent := sent t @
                        [\<lparr>URL = base @ path, StatusCode = 0, Status = [],
                          ErrorMessage =
                            ''Error creating request for '' @ path @ '': '' @ err' @ [CHR 0x0A]\<rparr>]\<rparr>
                 else t"
      have a: "attempts e base path ua i t = Return ?t'"
        using True Some by (simp add: attempts.simps [of _ _ _ _ i] attempt_def)
      have "runCalls e base [0] (?S t i AtLoop) = Some (?S ?t' i AtEnd)"
        using True Some by (simp add: callStep_def)
      then show ?thesis
        unfolding a finish_def by (intro exI [of _ "[0]"] exI [of _ i]) simp
    next
      case None
      obtain r x where d: "Do e (base @ path) ua i = (r, x)" by (cases "Do e (base @ path) ua i")
      let ?t1 = "t\<lparr>resp := r, agents := agents t @ [ua]\<rparr>"
      have e1: "err ?t1 = None" using "1.prems" by simp
      show ?thesis
      proof (cases "x = None \<and> r \<noteq> None")
        case ok: True
        then obtain code where r: "r = Some code" and x: "x = None" by auto
        show ?thesis
        proof (cases "code \<noteq> StatusNotFound")
          case True
          have b: "attempt e base path ua i t = Break ?t1"
            using None d r x True by (simp add: attempt_def)
          have a: "attempts e base path ua i t = Break ?t1"
            using \<open>i < 3\<close> b by (simp add: attempts.simps [of _ _ _ _ i])
          have "callStep e base 0 (?S t i AtLoop) = Some (?S ?t1 i AtReport)"
            using \<open>i < 3\<close> None d r x True by (simp add: callStep_def)
          then have "runCalls e base [0, 0] (?S t i AtLoop) =
                       Some (?S (report base path ?t1) i AtEnd)"
            using rep [OF e1, of i] by simp
          then show ?thesis
            unfolding a finish_def by (intro exI [of _ "[0, 0]"] exI [of _ i]) simp
        next
          case False
          have b: "attempt e base path ua i t = Continue ?t1"
            using None d r x False by (simp add: attempt_def)
          have a: "attempts e base path ua i t = attempts e base path ua (i + 1) ?t1"
            using \<open>i < 3\<close> b by (simp add: attempts.simps [of _ _ _ _ i])
          have s1: "callStep e base 0 (?S t i AtLoop) = Some (?S ?t1 (i + 1) AtLoop)"
            using \<open>i < 3\<close> None d r x False by (simp add: callStep_def)
          obtain ks j where ih: "set ks \<subseteq> {0}"
              "runCalls e base ks (?S ?t1 (i + 1) AtLoop) =
                 Some (?S (finish base path (attempts e base path ua (i + 1) ?t1)) j AtEnd)"
            using "1.IH" [OF \<open>i < 3\<close> b e1] by auto
          have "runCalls e base (0 # ks) (?S t i AtLoop) =
                  Some (?S (finish base path (attempts e base path ua (i + 1) ?t1)) j AtEnd)"
            using s1 ih(2) by simp
          then show ?thesis
            unfolding a using ih(1) by (intro exI [of _ "0 # ks"] exI [of _ j]) simp
        qed
      next
        case bad: False
        let ?t2 = "?t1\<lparr>slept := slept ?t1 @ [cell ?t1], cell := wrap64 (cell ?t1 * 2)\<rparr>"
        have e2: "err ?t2 = None" using "1.prems" by simp
        have b: "attempt e base path ua i t = Continue ?t2"
          using None d bad by (auto simp: attempt_def Let_def split: option.splits)
        have a: "attempts e base path ua i t = attempts e base path ua (i + 1) ?t2"
          using \<open>i < 3\<close> b by (simp add: attempts.simps [of _ _ _ _ i])
        have s1: "callStep e base 0 (?S t i AtLoop) = Some (?S ?t1 i AtSleep)"
          using \<open>i < 3\<close> None d bad by (auto simp: callStep_def Let_def split: option.splits)
        have s4: "runCalls e base [0, 0, 0] (?S ?t1 i AtSleep) = Some (?S ?t2 (i + 1) AtLoop)"
          by (simp add: callStep_def)
        obtain ks j where ih: "set ks \<subseteq> {0}"
            "runCalls e base ks (?S ?t2 (i + 1) AtLoop) =
               Some (?S (finish base path (attempts e base path ua (i + 1) ?t2)) j AtEnd)"
          using "1.IH" [OF \<open>i < 3\<close> b e2] by auto
        have "runCalls e base ([0] @ [0, 0, 0] @ ks) (?S t i AtLoop) =
                Some (?S (finish base path (attempts e base path ua (i + 1) ?t2)) j AtEnd)"
          unfolding runCalls_append using s1 s4 ih(2) by simp
        then show ?thesis
          unfolding a using ih(1)
          by (intro exI [of _ "[0] @ [0, 0, 0] @ ks"] exI [of _ j]) simp
      qed
    qed
  qed
qed

lemma call_alone_scanTarget:
  assumes "scanTarget e base path agentPool d = Returns t"
  shows "\<exists>ks j. set ks \<subseteq> {0} \<and>
           runCalls e base ks
             \<lparr>sharedCell = d, sleepLog = [],
              calls = [newCall path (agentPool ! (Intn e 0 mod length agentPool))]\<rparr> =
           Some \<lparr>sharedCell = cell t, sleepLog = slept t,
                 calls = [\<lparr>callPath = path,
                           callAgent = agentPool ! (Intn e 0 mod length agentPool),
                           attemptNo = j, callResp = resp t, callAt = AtEnd,
                           callSent = sent t\<rparr>]\<rparr>"
proof -
  let ?ua = "agentPool ! (Intn e 0 mod length agentPool)"
  let ?t0 = "\<lparr>resp = None, err = None, cell = d, sent = [], slept = [], agents = []\<rparr>"
  have "t = finish base path (attempts e base path ?ua 0 ?t0)"
    using assms by (auto simp: scanTarget_def Let_def split: if_splits)
  then show ?thesis
    using call_alone [of ?t0 e base path ?ua 0] by (simp add: newCall_def)
qed

text \<open>
  C10 as stated fails. From a delay of -1ns the value goes down with every doubling, to
  -8ns after one task, and so do the arguments of \<^verbatim>\<open>time.Sleep\<close>; from a delay of
  \<open>2 ^ 62\<close> nanoseconds the doubling wraps around to \<open>- 2 ^ 63\<close> and then to 0. And with
  two calls at once, from a delay of 1ns and far from any overflow: the first call has
  read 1 in \<^verbatim>\<open>*adaptiveDelay *= 2\<close> when the second backs off twice, to 4; the first then
  writes 2, and its next sleep is one of 2ns after the other's sleep of 4ns.
\<close>

theorem worker_delay_decreases:
  "worker (\<lambda>n. unreachable) 0 (example\<lparr>adaptiveDelay := - 1\<rparr>) [''/admin''] =
     Returns \<lparr>finalConfig = example\<lparr>adaptiveDelay := - 8\<rparr>, outcomes = [],
              sleeps = [- 1, - 2, - 4]\<rparr> \<and>
   \<not> sorted [- 1, - 2, - 4 :: int] \<and>
   worker (\<lambda>n. unreachable) 0 (example\<lparr>adaptiveDelay := 4611686018427387904\<rparr>)
       [''/admin''] =
     Returns \<lparr>finalConfig = example\<lparr>adaptiveDelay := 0\<rparr>, outcomes = [],
              sleeps = [4611686018427387904, - 9223372036854775808, 0]\<rparr> \<and>
   \<not> sorted [4611686018427387904, - 9223372036854775808, 0 :: int] \<and>
   runCalls unreachable ''http://test.local''
       [0, 0, 0, 1, 1, 1, 1, 1, 1, 1, 1, 1, 1, 0, 0, 0]
       \<lparr>sharedCell = 1, sleepLog = [], calls = [newCall ''/a'' ''A'', newCall ''/b'' ''B'']\<rparr> =
     Some \<lparr>sharedCell = 2, sleepLog = [1, 1, 2, 4, 2],
           calls = [\<lparr>callPath = ''/a'', callAgent = ''A'', attemptNo = 1, callResp = None,
                     callAt = AtLoad, callSent = []\<rparr>,
                    \<lparr>callPath = ''/b'', callAgent = ''B'', attemptNo = 2, callResp = None,
                     callAt = AtLoad, callSent = []\<rparr>]\<rparr> \<and>
   \<not> sorted [1, 1, 2, 4, 2 :: int]"
  by (simp add: scan_defs unreachable_def example_def callStep_def newCall_def)

text \<open>
  C10, as the code has it, for one worker taking the paths in turn (\<^verbatim>\<open>config.concurrent\<close>
  is 1) and a configured delay \<open>d\<close> that is an \<^verbatim>\<open>int64\<close>. The cell changes by one doubling
  per sleep, as an \<^verbatim>\<open>int64\<close>, and in no other way: the \<open>k\<close>-th sleep of the run is \<open>d * 2 ^ k\<close>
  wrapped into \<^verbatim>\<open>int64\<close>, and the configuration ends with \<open>d * 2 ^ m\<close> wrapped, \<open>m\<close> being the
  number of sleeps. When \<open>d\<close> is not negative and the doublings that were made did not
  pass \<open>2 ^ 63\<close>, the values of the cell (the sleeps, then the final value) never go
  down; when \<open>d\<close> is negative and they did not pass \<open>- 2 ^ 63\<close>, every doubling takes the
  value further down.
\<close>

theorem worker_delay_doubles:
  "userAgents config \<noteq> [] \<Longrightarrow> - (2 ^ 63) \<le> adaptiveDelay config \<Longrightarrow>
   adaptiveDelay config < 2 ^ 63 \<Longrightarrow>
   \<exists>r. worker es n config paths = Returns r \<and>
       sleeps r = map (\<lambda>k. wrap64 (adaptiveDelay config * 2 ^ k)) [0..<length (sleeps r)] \<and>
       adaptiveDelay (finalConfig r) = wrap64 (adaptiveDelay config * 2 ^ length (sleeps r)) \<and>
       (0 \<le> adaptiveDelay config \<and> adaptiveDelay config * 2 ^ length (sleeps r) < 2 ^ 63 \<longrightarrow>
          sorted (sleeps r @ [adaptiveDelay (finalConfig r)]) \<and>
          adaptiveDelay config \<le> adaptiveDelay (finalConfig r)) \<and>
       (adaptiveDelay config < 0 \<and> - (2 ^ 63) \<le> adaptiveDelay config * 2 ^ length (sleeps r) \<longrightarrow>
          sorted_wrt (\<lambda>x y. y < x) (sleeps r @ [adaptiveDelay (finalConfig r)]) \<and>
          adaptiveDelay (finalConfig r) \<le> adaptiveDelay config)"
proof -
  let ?d = "adaptiveDelay config"
  assume a: "userAgents config \<noteq> []" "- (2 ^ 63) \<le> ?d" "?d < 2 ^ 63"
  obtain r where r: "worker es n config paths = Returns r"
      "sleeps r = map (\<lambda>k. wrap64 (?d * 2 ^ k)) [0..<length (sleeps r)]"
      "adaptiveDelay (finalConfig r) = wrap64 (?d * 2 ^ length (sleeps r))"
    using worker_doubling [OF a] by blast
  let ?m = "length (sleeps r)"
  have v: "sleeps r @ [adaptiveDelay (finalConfig r)] =
             map (\<lambda>k. wrap64 (?d * 2 ^ k)) [0..<Suc ?m]"
    using r(2,3) by simp
  have pos: "sorted (sleeps r @ [adaptiveDelay (finalConfig r)]) \<and>
             ?d \<le> adaptiveDelay (finalConfig r)"
    if h: "0 \<le> ?d \<and> ?d * 2 ^ ?m < 2 ^ 63"
  proof -
    have e: "sleeps r @ [adaptiveDelay (finalConfig r)] = map (\<lambda>k. ?d * 2 ^ k) [0..<Suc ?m]"
      using v doubling_in_range [of ?d ?m] h by simp
    then have f: "adaptiveDelay (finalConfig r) = ?d * 2 ^ ?m" by simp
    have "?d * 1 \<le> ?d * 2 ^ ?m" using h by (intro mult_left_mono) auto
    then show ?thesis
      using e f geometric_sorted [of ?d "Suc ?m"] h by simp
  qed
  have neg: "sorted_wrt (\<lambda>x y. y < x) (sleeps r @ [adaptiveDelay (finalConfig r)]) \<and>
             adaptiveDelay (finalConfig r) \<le> ?d"
    if h: "?d < 0 \<and> - (2 ^ 63) \<le> ?d * 2 ^ ?m"
  proof -
    have e: "sleeps r @ [adaptiveDelay (finalConfig r)] = map (\<lambda>k. ?d * 2 ^ k) [0..<Suc ?m]"
      using v doubling_in_range [of ?d ?m] h by simp
    then have f: "adaptiveDelay (finalConfig r) = ?d * 2 ^ ?m" by simp
    have "?d * 2 ^ ?m \<le> ?d * 1" using h by (intro mult_left_mono_neg) auto
    then show ?thesis
      using e f geometric_falling [of ?d "Suc ?m"] h by simp
  qed
  show ?thesis
    using r pos neg by blast
qed

theorem worker_delay_doubles_witness:
  "worker (\<lambda>n. unreachable) 0 example [''/admin'', ''/secret''] =
     Returns \<lparr>finalConfig = example\<lparr>adaptiveDelay := 6400000000\<rparr>, outcomes = [],
              sleeps = [100000000, 200000000, 400000000, 800000000, 1600000000, 3200000000]\<rparr> \<and>
   sorted [100000000, 200000000, 400000000, 800000000, 1600000000, 3200000000, 6400000000 :: int]"
  using worker_delay_doubles [of example "\<lambda>n. unreachable" 0 "[''/admin'', ''/secret'']"]
  by (simp add: scan_defs unreachable_def example_def)

subsection \<open>The run\<close>

text \<open>
  When the worker is scheduled before the main goroutine reaches \<^verbatim>\<open>wg.Wait()\<close>, the
  outcome is collected.
\<close>

lemma runScanner_orderly_schedule:
  "execute (answering 200) example
       [MainT, MainT, WorkerT 0, WorkerT 0, WorkerT 0, WorkerT 0, MainT, MainT, CollectorT]
       (start example [''/robots.txt'']) =
     Some \<lparr>mainAt = Finished, unsent = [], tasksChan = [], tasksClosed = True, wg = 0,
           resultsChan = [], resultsClosed = True, workers = [Receiving],
           results = [\<lparr>URL = ''http://test.local/robots.txt'', StatusCode = 200,
                      Status = ''Found'', ErrorMessage = []\<rparr>],
           delayCell = 100000000, crashed = None\<rparr>"
  by (simp add: step_def mainStep_def workerStep_def collectorStep_def start_def scan_defs
      answering_def example_def)

text \<open>
  With two paths the run can also end inside \<^verbatim>\<open>wg.Wait()\<close>: the main goroutine is parked
  while the first task runs and is woken by its \<^verbatim>\<open>wg.Done()\<close>, but before it runs again
  the worker has received the second path and called \<^verbatim>\<open>wg.Add(1)\<close>.
\<close>

lemma runScanner_waitgroup_reused:
  "execute (answering 404) example
       [MainT, WorkerT 0, MainT, MainT, WorkerT 0, MainT, WorkerT 0, WorkerT 0, WorkerT 0, MainT]
       (start example [''/a'', ''/b'']) =
     Some \<lparr>mainAt = Woken, unsent = [], tasksChan = [], tasksClosed = True, wg = 1,
           resultsChan = [], resultsClosed = False, workers = [Sending []], results = [],
           delayCell = 100000000,
           crashed = Some ''sync: WaitGroup is reused before previous Wait has returned''\<rparr>"
  by (simp add: step_def mainStep_def workerStep_def collectorStep_def start_def scan_defs
      answering_def example_def)

text \<open>
  C2: with one worker and one path, the main goroutine can send the path into the
  buffer of \<^verbatim>\<open>tasksChan\<close>, close it, pass \<^verbatim>\<open>wg.Wait()\<close> while the counter is still 0
  (the worker calls \<^verbatim>\<open>wg.Add(1)\<close> only after it has received the path) and close
  \<^verbatim>\<open>resultsChan\<close>. The worker then receives the path, finds it, and panics on the send:
  the one outcome of the run is never collected.
\<close>

theorem runScanner_closes_results_early:
  "execute (answering 200) example
       [MainT, MainT, MainT, MainT, WorkerT 0, WorkerT 0, WorkerT 0]
       (start example [''/robots.txt'']) =
     Some \<lparr>mainAt = Finished, unsent = [], tasksChan = [], tasksClosed = True, wg = 1,
           resultsChan = [], resultsClosed = True,
           workers = [Sending [\<lparr>URL = ''http://test.local/robots.txt'', StatusCode = 200,
                                Status = ''Found'', ErrorMessage = []\<rparr>]],
           results = [], delayCell = 100000000,
           crashed = Some ''send on closed channel''\<rparr>"
  by (simp add: step_def mainStep_def workerStep_def collectorStep_def start_def scan_defs answering_def example_def)

end
